theory Spec2Isabelle
  imports Complex_Main
begin

section \<open>Scalars\<close>

text \<open>
  \<^verbatim>\<open>grad_real_t\<close> is \<^verbatim>\<open>float\<close>, or \<^verbatim>\<open>double\<close> under \<^verbatim>\<open>GRAD_USE_DOUBLE\<close>. The definitions of
  the two engines are therefore polymorphic in the scalar type \<open>'a\<close>: they use the
  constants \<open>0\<close> and \<open>1\<close> and the operations \<open>+\<close>, \<open>-\<close>, \<open>*\<close>, \<open>/\<close> and unary minus of \<open>'a\<close>
  through the syntactic type classes, which state no law of arithmetic, and the
  functions of libm through a parameter. The scalar type of the default build is
  \<open>float32\<close> below. The type \<^typ>\<open>real\<close> is the exact arithmetic that the floating-point
  results are compared with.
\<close>

subsection \<open>IEEE 754 binary32\<close>

text \<open>
  A value of binary32 is a finite number, given by its sign bit (\<open>True\<close> for minus) and
  its magnitude, so that \<open>+0\<close> and \<open>-0\<close> are two values; or an infinity with its sign
  bit; or a NaN (the sign and the payload of a NaN are not modelled).
\<close>

datatype float32 = Finite bool real | Infinity bool | NaN

definition valof :: "float32 \<Rightarrow> real" where
  "valof x = (case x of Finite s m \<Rightarrow> (if s then - m else m) | _ \<Rightarrow> 0)"

definition is_finite :: "float32 \<Rightarrow> bool" where
  "is_finite x = (case x of Finite s m \<Rightarrow> True | _ \<Rightarrow> False)"

definition is_zero :: "float32 \<Rightarrow> bool" where
  "is_zero x = (case x of Finite s m \<Rightarrow> m = 0 | _ \<Rightarrow> False)"

text \<open>
  The binade of a magnitude \<open>m\<close>: the exponent \<open>e\<close> with \<open>2\<^sup>e \<le> m < 2\<^sup>e\<^sup>+\<^sup>1\<close>, kept
  between \<open>-126\<close> (the exponent of the subnormal numbers) and \<open>127\<close>. It is searched
  upwards from 0 for a magnitude of at least 1 and downwards from \<open>-1\<close> for a smaller
  one.
\<close>

fun binade_up :: "nat \<Rightarrow> int \<Rightarrow> real \<Rightarrow> int" where
  "binade_up 0 e m = e"
| "binade_up (Suc k) e m = (if m < 2 powi (e + 1) then e else binade_up k (e + 1) m)"

fun binade_down :: "nat \<Rightarrow> int \<Rightarrow> real \<Rightarrow> int" where
  "binade_down 0 e m = e"
| "binade_down (Suc k) e m = (if 2 powi e \<le> m then e else binade_down k (e - 1) m)"

definition binade :: "real \<Rightarrow> int" where
  "binade m = (if 1 \<le> m then binade_up 127 0 m else binade_down 125 (- 1) m)"

text \<open>The nearest integer, the even one of two that are equally near.\<close>

definition round_even :: "real \<Rightarrow> int" where
  "round_even q =
     (let n = \<lfloor>q\<rfloor>; r = q - of_int n
      in if r < 1 / 2 then n else if 1 / 2 < r then n + 1 else if even n then n else n + 1)"

text \<open>
  Rounding to nearest, ties to even: a magnitude is rounded to a multiple of the unit
  in the last place of its binade (24 significant bits; \<open>2\<^sup>-\<^sup>1\<^sup>4\<^sup>9\<close> for subnormal
  numbers), and a result of \<open>2\<^sup>1\<^sup>2\<^sup>8\<close> or more is the infinity.
\<close>

definition round32 :: "bool \<Rightarrow> real \<Rightarrow> float32" where
  "round32 s m =
     (let u = 2 powi (binade m - 23);
          r = of_int (round_even (m / u)) * u
      in if 2 powi 128 \<le> r then Infinity s else Finite s r)"

text \<open>
  The operations: a NaN operand gives NaN, as do \<open>\<infinity> - \<infinity>\<close>, \<open>0 * \<infinity>\<close>, \<open>0 / 0\<close> and
  \<open>\<infinity> / \<infinity>\<close>; a non-zero finite number divided by zero is an infinity; otherwise the
  result is the exact result rounded. An exact sum that is zero has the sign of the
  operands when they have the same sign and is \<open>+0\<close> when they differ.
\<close>

fun float_add :: "float32 \<Rightarrow> float32 \<Rightarrow> float32" where
  "float_add NaN y = NaN"
| "float_add x NaN = NaN"
| "float_add (Infinity s) (Infinity t) = (if s = t then Infinity s else NaN)"
| "float_add (Infinity s) (Finite t b) = Infinity s"
| "float_add (Finite s a) (Infinity t) = Infinity t"
| "float_add (Finite s a) (Finite t b) =
     (let v = (if s then - a else a) + (if t then - b else b)
      in if v = 0 then Finite (s \<and> t) 0 else round32 (v < 0) \<bar>v\<bar>)"

fun float_neg :: "float32 \<Rightarrow> float32" where
  "float_neg NaN = NaN"
| "float_neg (Infinity s) = Infinity (\<not> s)"
| "float_neg (Finite s a) = Finite (\<not> s) a"

fun float_mul :: "float32 \<Rightarrow> float32 \<Rightarrow> float32" where
  "float_mul NaN y = NaN"
| "float_mul x NaN = NaN"
| "float_mul (Infinity s) (Infinity t) = Infinity (s \<noteq> t)"
| "float_mul (Infinity s) (Finite t b) = (if b = 0 then NaN else Infinity (s \<noteq> t))"
| "float_mul (Finite s a) (Infinity t) = (if a = 0 then NaN else Infinity (s \<noteq> t))"
| "float_mul (Finite s a) (Finite t b) = round32 (s \<noteq> t) (a * b)"

fun float_div :: "float32 \<Rightarrow> float32 \<Rightarrow> float32" where
  "float_div NaN y = NaN"
| "float_div x NaN = NaN"
| "float_div (Infinity s) (Infinity t) = NaN"
| "float_div (Infinity s) (Finite t b) = Infinity (s \<noteq> t)"
| "float_div (Finite s a) (Infinity t) = Finite (s \<noteq> t) 0"
| "float_div (Finite s a) (Finite t b) =
     (if b = 0 then (if a = 0 then NaN else Infinity (s \<noteq> t))
      else round32 (s \<noteq> t) (a / b))"

instantiation float32 :: "{zero, one, plus, minus, uminus, times, inverse}"
begin

definition zero_float32 :: float32 where "zero_float32 = Finite False 0"

definition one_float32 :: float32 where "one_float32 = Finite False 1"

definition plus_float32 :: "float32 \<Rightarrow> float32 \<Rightarrow> float32" where
  "plus_float32 x y = float_add x y"

definition uminus_float32 :: "float32 \<Rightarrow> float32" where
  "uminus_float32 x = float_neg x"

definition minus_float32 :: "float32 \<Rightarrow> float32 \<Rightarrow> float32" where
  "minus_float32 x y = float_add x (float_neg y)"

definition times_float32 :: "float32 \<Rightarrow> float32 \<Rightarrow> float32" where
  "times_float32 x y = float_mul x y"

definition divide_float32 :: "float32 \<Rightarrow> float32 \<Rightarrow> float32" where
  "divide_float32 x y = float_div x y"

definition inverse_float32 :: "float32 \<Rightarrow> float32" where
  "inverse_float32 x = float_div (Finite False 1) x"

instance ..

end

text \<open>
  \<^verbatim>\<open>float\<close> expressions are evaluated in binary32. The source computes with a \<^verbatim>\<open>double\<close>
  constant in two places. In \<^verbatim>\<open>grad_reverse_init(1.0 / grad->value)\<close> the quotient is
  computed in binary64 and converted to binary32 when it is passed. In
  \<^verbatim>\<open>grad->left->derivative += -1.0 * grad->derivative\<close> the product is exact and the sum is
  computed in binary64 and converted to binary32 when it is stored. The operands are
  values of binary32 and binary64 has more than twice its precision (53 bits against 24),
  so that rounding a single quotient or sum first to binary64 and then to binary32
  gives the correctly rounded binary32 result: these two places are written with the
  operations of the scalar type, like all others.
\<close>

type_synonym grad_real_t = float32

subsection \<open>The functions of libm\<close>

text \<open>
  The macros \<^verbatim>\<open>GRAD_EXP\<close>, ..., \<^verbatim>\<open>GRAD_POW\<close> name functions of the C library
  (\<^verbatim>\<open>expf\<close>, ..., \<^verbatim>\<open>powf\<close>, or \<^verbatim>\<open>exp\<close>, ..., \<^verbatim>\<open>pow\<close>), which are no part of the
  library. They are the parameter \<open>L\<close> of every function that calls one of them.
\<close>

record 'a libm =
  GRAD_EXP :: "'a \<Rightarrow> 'a"
  GRAD_LOG :: "'a \<Rightarrow> 'a"
  GRAD_SIN :: "'a \<Rightarrow> 'a"
  GRAD_COS :: "'a \<Rightarrow> 'a"
  GRAD_SQRT :: "'a \<Rightarrow> 'a"
  GRAD_POW :: "'a \<Rightarrow> 'a \<Rightarrow> 'a"

text \<open>
  The libm of the default build: nothing is stated about the results of its functions.
\<close>

definition libm32 :: "float32 libm" where
  "libm32 =
     \<lparr>GRAD_EXP = undefined, GRAD_LOG = undefined, GRAD_SIN = undefined,
      GRAD_COS = undefined, GRAD_SQRT = undefined, GRAD_POW = undefined\<rparr>"

text \<open>\<^verbatim>\<open>assert\<close> aborts the program: the one error of the library.\<close>

datatype error = CapacityViolation

section \<open>Forward mode\<close>

text \<open>
  \<^verbatim>\<open>struct grad_forward_t { size_t id; grad_real_t value;
  grad_real_t derivative[GRAD_FORWARD_TAPE_SIZE]; }\<close>. The field \<^verbatim>\<open>id\<close> is named
  \<open>slot_id\<close> here. The array is a list; the macro \<^verbatim>\<open>GRAD_FORWARD_TAPE_SIZE\<close>
  (64 unless the user redefines it) is the parameter \<open>N\<close> of every function.
\<close>

record 'a grad_forward_t =
  slot_id :: nat
  "value" :: 'a
  derivative :: "'a list"

text \<open>The global \<^verbatim>\<open>size_t grad_forward_current_id\<close>.\<close>

record forward_state =
  grad_forward_current_id :: nat

definition GRAD_FORWARD_TAPE_SIZE_default :: nat where
  "GRAD_FORWARD_TAPE_SIZE_default = 64"

definition forward_state0 :: forward_state where
  "forward_state0 = \<lparr>grad_forward_current_id = 0\<rparr>"

definition grad_forward_start_scope :: "forward_state \<Rightarrow> forward_state" where
  "grad_forward_start_scope st = st\<lparr>grad_forward_current_id := 0\<rparr>"

text \<open>\<^verbatim>\<open>grad_forward_t result = {0};\<close>\<close>

definition forward_zero :: "nat \<Rightarrow> ('a::{zero,one,plus,minus,uminus,times,inverse}) grad_forward_t" where
  "forward_zero N = \<lparr>slot_id = 0, value = 0, derivative = replicate N 0\<rparr>"

definition grad_forward_init ::
  "nat \<Rightarrow> forward_state \<Rightarrow> ('a::{zero,one,plus,minus,uminus,times,inverse}) \<Rightarrow> error + ('a grad_forward_t \<times> forward_state)" where
  "grad_forward_init N st v =
     (if grad_forward_current_id st < N then
        (let result = forward_zero N;
             result = result\<lparr>value := v\<rparr>;
             result = result\<lparr>derivative := replicate N 0\<rparr>;
             result = result\<lparr>slot_id := grad_forward_current_id st\<rparr>;
             result = result\<lparr>derivative := (derivative result)[grad_forward_current_id st := 1]\<rparr>
         in Inr (result, st\<lparr>grad_forward_current_id := grad_forward_current_id st + 1\<rparr>))
      else Inl CapacityViolation)"

text \<open>
  \<^verbatim>\<open>for (size_t i = 0; i < grad_forward_current_id; i++) result.derivative[i] = f(i);\<close>
  The entries are written one after the other, from index 0.
\<close>

definition derivative_loop ::
  "forward_state \<Rightarrow> (nat \<Rightarrow> 'a) \<Rightarrow> 'a grad_forward_t \<Rightarrow> 'a grad_forward_t" where
  "derivative_loop st f result =
     result\<lparr>derivative := fold (\<lambda>i d. d[i := f i]) [0..<grad_forward_current_id st] (derivative result)\<rparr>"

definition grad_forward_add ::
  "nat \<Rightarrow> forward_state \<Rightarrow> ('a::{zero,one,plus,minus,uminus,times,inverse}) grad_forward_t \<Rightarrow> 'a grad_forward_t \<Rightarrow> 'a grad_forward_t" where
  "grad_forward_add N st left right =
     (let result = forward_zero N;
          result = result\<lparr>value := value left + value right\<rparr>
      in derivative_loop st (\<lambda>i. derivative left ! i + derivative right ! i) result)"

text \<open>
  \<^verbatim>\<open>memcpy(result.derivative, grad->derivative, sizeof(grad_real_t) * GRAD_FORWARD_TAPE_SIZE)\<close>
  copies the whole array of the operand.
\<close>

definition grad_forward_add_c ::
  "nat \<Rightarrow> forward_state \<Rightarrow> ('a::{zero,one,plus,minus,uminus,times,inverse}) grad_forward_t \<Rightarrow> 'a \<Rightarrow> 'a grad_forward_t" where
  "grad_forward_add_c N st grad constant =
     (let result = forward_zero N;
          result = result\<lparr>value := value grad + constant\<rparr>
      in result\<lparr>derivative := derivative grad\<rparr>)"

definition grad_forward_mul ::
  "nat \<Rightarrow> forward_state \<Rightarrow> ('a::{zero,one,plus,minus,uminus,times,inverse}) grad_forward_t \<Rightarrow> 'a grad_forward_t \<Rightarrow> 'a grad_forward_t" where
  "grad_forward_mul N st left right =
     (let result = forward_zero N;
          result = result\<lparr>value := value left * value right\<rparr>
      in derivative_loop st
           (\<lambda>i. derivative left ! i * value right + value left * derivative right ! i) result)"

definition grad_forward_mul_c ::
  "nat \<Rightarrow> forward_state \<Rightarrow> ('a::{zero,one,plus,minus,uminus,times,inverse}) grad_forward_t \<Rightarrow> 'a \<Rightarrow> 'a grad_forward_t" where
  "grad_forward_mul_c N st grad constant =
     (let result = forward_zero N;
          result = result\<lparr>value := value grad * constant\<rparr>
      in derivative_loop st (\<lambda>i. constant * derivative grad ! i) result)"

definition grad_forward_inv ::
  "nat \<Rightarrow> forward_state \<Rightarrow> ('a::{zero,one,plus,minus,uminus,times,inverse}) grad_forward_t \<Rightarrow> 'a grad_forward_t" where
  "grad_forward_inv N st grad =
     (let result = forward_zero N;
          result = result\<lparr>value := 1 / value grad\<rparr>;
          inv_sq = 1 / (value grad * value grad)
      in derivative_loop st (\<lambda>i. - derivative grad ! i * inv_sq) result)"

definition grad_forward_div ::
  "nat \<Rightarrow> forward_state \<Rightarrow> ('a::{zero,one,plus,minus,uminus,times,inverse}) grad_forward_t \<Rightarrow> 'a grad_forward_t \<Rightarrow> 'a grad_forward_t" where
  "grad_forward_div N st left right =
     (let right_inv = grad_forward_inv N st right
      in grad_forward_mul N st left right_inv)"

definition grad_forward_neg ::
  "nat \<Rightarrow> forward_state \<Rightarrow> ('a::{zero,one,plus,minus,uminus,times,inverse}) grad_forward_t \<Rightarrow> 'a grad_forward_t" where
  "grad_forward_neg N st grad = grad_forward_mul_c N st grad (- 1)"

definition grad_forward_sub ::
  "nat \<Rightarrow> forward_state \<Rightarrow> ('a::{zero,one,plus,minus,uminus,times,inverse}) grad_forward_t \<Rightarrow> 'a grad_forward_t \<Rightarrow> 'a grad_forward_t" where
  "grad_forward_sub N st left right =
     (let right_neg = grad_forward_neg N st right
      in grad_forward_add N st left right_neg)"

definition grad_forward_exp ::
  "('a::{zero,one,plus,minus,uminus,times,inverse}) libm \<Rightarrow> nat \<Rightarrow> forward_state \<Rightarrow> 'a grad_forward_t \<Rightarrow> 'a grad_forward_t" where
  "grad_forward_exp L N st grad =
     (let result = forward_zero N;
          result = result\<lparr>value := GRAD_EXP L (value grad)\<rparr>
      in derivative_loop st (\<lambda>i. value result * derivative grad ! i) result)"

definition grad_forward_log ::
  "('a::{zero,one,plus,minus,uminus,times,inverse}) libm \<Rightarrow> nat \<Rightarrow> forward_state \<Rightarrow> 'a grad_forward_t \<Rightarrow> 'a grad_forward_t" where
  "grad_forward_log L N st grad =
     (let result = forward_zero N;
          result = result\<lparr>value := GRAD_LOG L (value grad)\<rparr>;
          inv = 1 / value grad
      in derivative_loop st (\<lambda>i. inv * derivative grad ! i) result)"

definition grad_forward_sin ::
  "('a::{zero,one,plus,minus,uminus,times,inverse}) libm \<Rightarrow> nat \<Rightarrow> forward_state \<Rightarrow> 'a grad_forward_t \<Rightarrow> 'a grad_forward_t" where
  "grad_forward_sin L N st grad =
     (let result = forward_zero N;
          result = result\<lparr>value := GRAD_SIN L (value grad)\<rparr>;
          val = GRAD_COS L (value grad)
      in derivative_loop st (\<lambda>i. val * derivative grad ! i) result)"

definition grad_forward_cos ::
  "('a::{zero,one,plus,minus,uminus,times,inverse}) libm \<Rightarrow> nat \<Rightarrow> forward_state \<Rightarrow> 'a grad_forward_t \<Rightarrow> 'a grad_forward_t" where
  "grad_forward_cos L N st grad =
     (let result = forward_zero N;
          result = result\<lparr>value := GRAD_COS L (value grad)\<rparr>;
          val = - GRAD_SIN L (value grad)
      in derivative_loop st (\<lambda>i. val * derivative grad ! i) result)"

definition grad_forward_tan ::
  "('a::{zero,one,plus,minus,uminus,times,inverse}) libm \<Rightarrow> nat \<Rightarrow> forward_state \<Rightarrow> 'a grad_forward_t \<Rightarrow> 'a grad_forward_t" where
  "grad_forward_tan L N st grad =
     (let s = grad_forward_sin L N st grad;
          c = grad_forward_cos L N st grad
      in grad_forward_div N st s c)"

definition grad_forward_sqrt ::
  "('a::{zero,one,plus,minus,uminus,times,inverse}) libm \<Rightarrow> nat \<Rightarrow> forward_state \<Rightarrow> 'a grad_forward_t \<Rightarrow> 'a grad_forward_t" where
  "grad_forward_sqrt L N st grad =
     (let result = forward_zero N;
          result = result\<lparr>value := GRAD_SQRT L (value grad)\<rparr>;
          inv = (1 / (1 + 1)) / value result
      in derivative_loop st (\<lambda>i. inv * derivative grad ! i) result)"

definition grad_forward_pow ::
  "('a::{zero,one,plus,minus,uminus,times,inverse}) libm \<Rightarrow> nat \<Rightarrow> forward_state \<Rightarrow> 'a grad_forward_t \<Rightarrow> 'a \<Rightarrow> 'a grad_forward_t" where
  "grad_forward_pow L N st grad e =
     (let result = forward_zero N;
          result = result\<lparr>value := GRAD_POW L (value grad) e\<rparr>;
          val = GRAD_POW L (value grad) (e - 1)
      in derivative_loop st (\<lambda>i. e * val * derivative grad ! i) result)"

section \<open>Reverse mode\<close>

datatype grad_reverse_op_t =
    GRAD_OP_NONE
  | GRAD_OP_ADD
  | GRAD_OP_MUL
  | GRAD_OP_NEG
  | GRAD_OP_INV
  | GRAD_OP_SIN
  | GRAD_OP_COS
  | GRAD_OP_EXP
  | GRAD_OP_LOG

text \<open>
  \<^verbatim>\<open>struct grad_reverse_t\<close>. Every node the library hands out is an element of the
  global array \<^verbatim>\<open>grad_reverse_tape\<close>, so a \<^verbatim>\<open>grad_reverse_t *\<close> is modelled by the
  index of the element it points to. The array is a list whose length is
  \<^verbatim>\<open>GRAD_REVERSE_TAPE_SIZE\<close> (64 unless the user redefines it).
\<close>

record 'a grad_reverse_t =
  "value" :: 'a
  derivative :: 'a
  operation :: grad_reverse_op_t
  left :: nat
  right :: nat

text \<open>The globals \<^verbatim>\<open>grad_reverse_tape\<close> and \<^verbatim>\<open>grad_reverse_current_id\<close>.\<close>

record 'a reverse_state =
  grad_reverse_tape :: "'a grad_reverse_t list"
  grad_reverse_current_id :: nat

definition GRAD_REVERSE_TAPE_SIZE :: "'a reverse_state \<Rightarrow> nat" where
  "GRAD_REVERSE_TAPE_SIZE st = length (grad_reverse_tape st)"

text \<open>The zero-initialised static storage the program starts with.\<close>

definition reverse_state0 :: "nat \<Rightarrow> ('a::{zero,one,plus,minus,uminus,times,inverse}) reverse_state" where
  "reverse_state0 N =
     \<lparr>grad_reverse_tape =
        replicate N \<lparr>value = 0, derivative = 0, operation = GRAD_OP_NONE, left = 0, right = 0\<rparr>,
      grad_reverse_current_id = 0\<rparr>"

definition grad_reverse_start_scope :: "'a reverse_state \<Rightarrow> 'a reverse_state" where
  "grad_reverse_start_scope st = st\<lparr>grad_reverse_current_id := 0\<rparr>"

text \<open>A write through a node pointer: \<^verbatim>\<open>p->field = ...\<close>.\<close>

definition node_update ::
  "nat \<Rightarrow> ('a grad_reverse_t \<Rightarrow> 'a grad_reverse_t) \<Rightarrow> 'a reverse_state \<Rightarrow> 'a reverse_state" where
  "node_update p f st = st\<lparr>grad_reverse_tape := (grad_reverse_tape st)[p := f (grad_reverse_tape st ! p)]\<rparr>"

text \<open>A read through a node pointer: \<^verbatim>\<open>p->value\<close>.\<close>

definition node_value :: "'a reverse_state \<Rightarrow> nat \<Rightarrow> 'a" where
  "node_value st p = value (grad_reverse_tape st ! p)"

definition grad_reverse_init ::
  "('a::{zero,one,plus,minus,uminus,times,inverse}) reverse_state \<Rightarrow> 'a \<Rightarrow> error + (nat \<times> 'a reverse_state)" where
  "grad_reverse_init st v =
     (if grad_reverse_current_id st < GRAD_REVERSE_TAPE_SIZE st then
        (let result = grad_reverse_current_id st;
             st = st\<lparr>grad_reverse_current_id := grad_reverse_current_id st + 1\<rparr>;
             st = node_update result (\<lambda>n. n\<lparr>value := v\<rparr>) st;
             st = node_update result (\<lambda>n. n\<lparr>operation := GRAD_OP_NONE\<rparr>) st;
             st = node_update result (\<lambda>n. n\<lparr>derivative := 0\<rparr>) st
         in Inr (result, st))
      else Inl CapacityViolation)"

text \<open>
  The constructors: the value is computed from the operands before \<^verbatim>\<open>grad_reverse_init\<close>
  runs, then the operation tag and the operand pointers are stored in the new node.
\<close>

definition grad_reverse_add ::
  "('a::{zero,one,plus,minus,uminus,times,inverse}) reverse_state \<Rightarrow> nat \<Rightarrow> nat \<Rightarrow> error + (nat \<times> 'a reverse_state)" where
  "grad_reverse_add st l r =
     (case grad_reverse_init st (node_value st l + node_value st r) of
        Inl e \<Rightarrow> Inl e
      | Inr (result, st) \<Rightarrow>
          Inr (result, node_update result
                 (\<lambda>n. n\<lparr>operation := GRAD_OP_ADD, left := l, right := r\<rparr>) st))"

definition grad_reverse_mul ::
  "('a::{zero,one,plus,minus,uminus,times,inverse}) reverse_state \<Rightarrow> nat \<Rightarrow> nat \<Rightarrow> error + (nat \<times> 'a reverse_state)" where
  "grad_reverse_mul st l r =
     (case grad_reverse_init st (node_value st l * node_value st r) of
        Inl e \<Rightarrow> Inl e
      | Inr (result, st) \<Rightarrow>
          Inr (result, node_update result
                 (\<lambda>n. n\<lparr>operation := GRAD_OP_MUL, left := l, right := r\<rparr>) st))"

definition grad_reverse_neg ::
  "('a::{zero,one,plus,minus,uminus,times,inverse}) reverse_state \<Rightarrow> nat \<Rightarrow> error + (nat \<times> 'a reverse_state)" where
  "grad_reverse_neg st grad =
     (case grad_reverse_init st (- node_value st grad) of
        Inl e \<Rightarrow> Inl e
      | Inr (result, st) \<Rightarrow>
          Inr (result, node_update result (\<lambda>n. n\<lparr>operation := GRAD_OP_NEG, left := grad\<rparr>) st))"

definition grad_reverse_inv ::
  "('a::{zero,one,plus,minus,uminus,times,inverse}) reverse_state \<Rightarrow> nat \<Rightarrow> error + (nat \<times> 'a reverse_state)" where
  "grad_reverse_inv st grad =
     (case grad_reverse_init st (1 / node_value st grad) of
        Inl e \<Rightarrow> Inl e
      | Inr (result, st) \<Rightarrow>
          Inr (result, node_update result (\<lambda>n. n\<lparr>operation := GRAD_OP_INV, left := grad\<rparr>) st))"

definition grad_reverse_sub ::
  "('a::{zero,one,plus,minus,uminus,times,inverse}) reverse_state \<Rightarrow> nat \<Rightarrow> nat \<Rightarrow> error + (nat \<times> 'a reverse_state)" where
  "grad_reverse_sub st l r =
     (case grad_reverse_neg st r of
        Inl e \<Rightarrow> Inl e
      | Inr (neg_right, st) \<Rightarrow> grad_reverse_add st l neg_right)"

definition grad_reverse_div ::
  "('a::{zero,one,plus,minus,uminus,times,inverse}) reverse_state \<Rightarrow> nat \<Rightarrow> nat \<Rightarrow> error + (nat \<times> 'a reverse_state)" where
  "grad_reverse_div st l r =
     (case grad_reverse_inv st r of
        Inl e \<Rightarrow> Inl e
      | Inr (inv_right, st) \<Rightarrow> grad_reverse_mul st l inv_right)"

definition grad_reverse_sin ::
  "('a::{zero,one,plus,minus,uminus,times,inverse}) libm \<Rightarrow> 'a reverse_state \<Rightarrow> nat \<Rightarrow> error + (nat \<times> 'a reverse_state)" where
  "grad_reverse_sin L st grad =
     (case grad_reverse_init st (GRAD_SIN L (node_value st grad)) of
        Inl e \<Rightarrow> Inl e
      | Inr (result, st) \<Rightarrow>
          Inr (result, node_update result (\<lambda>n. n\<lparr>operation := GRAD_OP_SIN, left := grad\<rparr>) st))"

definition grad_reverse_cos ::
  "('a::{zero,one,plus,minus,uminus,times,inverse}) libm \<Rightarrow> 'a reverse_state \<Rightarrow> nat \<Rightarrow> error + (nat \<times> 'a reverse_state)" where
  "grad_reverse_cos L st grad =
     (case grad_reverse_init st (GRAD_COS L (node_value st grad)) of
        Inl e \<Rightarrow> Inl e
      | Inr (result, st) \<Rightarrow>
          Inr (result, node_update result (\<lambda>n. n\<lparr>operation := GRAD_OP_COS, left := grad\<rparr>) st))"

definition grad_reverse_exp ::
  "('a::{zero,one,plus,minus,uminus,times,inverse}) libm \<Rightarrow> 'a reverse_state \<Rightarrow> nat \<Rightarrow> error + (nat \<times> 'a reverse_state)" where
  "grad_reverse_exp L st grad =
     (case grad_reverse_init st (GRAD_EXP L (node_value st grad)) of
        Inl e \<Rightarrow> Inl e
      | Inr (result, st) \<Rightarrow>
          Inr (result, node_update result (\<lambda>n. n\<lparr>operation := GRAD_OP_EXP, left := grad\<rparr>) st))"

definition grad_reverse_log ::
  "('a::{zero,one,plus,minus,uminus,times,inverse}) libm \<Rightarrow> 'a reverse_state \<Rightarrow> nat \<Rightarrow> error + (nat \<times> 'a reverse_state)" where
  "grad_reverse_log L st grad =
     (case grad_reverse_init st (GRAD_LOG L (node_value st grad)) of
        Inl e \<Rightarrow> Inl e
      | Inr (result, st) \<Rightarrow>
          Inr (result, node_update result (\<lambda>n. n\<lparr>operation := GRAD_OP_LOG, left := grad\<rparr>) st))"

subsection \<open>The backward pass\<close>

text \<open>\<^verbatim>\<open>p->derivative += x\<close> on the tape.\<close>

definition add_derivative ::
  "nat \<Rightarrow> ('a::{zero,one,plus,minus,uminus,times,inverse}) \<Rightarrow> 'a grad_reverse_t list \<Rightarrow> 'a grad_reverse_t list" where
  "add_derivative p x tape = tape[p := (tape ! p)\<lparr>derivative := derivative (tape ! p) + x\<rparr>]"

text \<open>
  The body of the second loop of \<^verbatim>\<open>grad_reverse_backward\<close> for the node at index \<open>i\<close>.
  The statements of a case run one after the other, each reading the tape the
  previous one left (the two operands of a node may be the same node).
\<close>

definition backward_node :: "('a::{zero,one,plus,minus,uminus,times,inverse}) libm \<Rightarrow> nat \<Rightarrow> 'a grad_reverse_t list \<Rightarrow> 'a grad_reverse_t list" where
  "backward_node L i tape =
     (case operation (tape ! i) of
        GRAD_OP_ADD \<Rightarrow>
          (let tape = add_derivative (left (tape ! i)) (derivative (tape ! i)) tape;
               tape = add_derivative (right (tape ! i)) (derivative (tape ! i)) tape
           in tape)
      | GRAD_OP_MUL \<Rightarrow>
          (let tape = add_derivative (left (tape ! i))
                        (value (tape ! right (tape ! i)) * derivative (tape ! i)) tape;
               tape = add_derivative (right (tape ! i))
                        (value (tape ! left (tape ! i)) * derivative (tape ! i)) tape
           in tape)
      | GRAD_OP_NEG \<Rightarrow>
          add_derivative (left (tape ! i)) (- 1 * derivative (tape ! i)) tape
      | GRAD_OP_INV \<Rightarrow>
          add_derivative (left (tape ! i))
            (- derivative (tape ! i) /
               (value (tape ! left (tape ! i)) * value (tape ! left (tape ! i)))) tape
      | GRAD_OP_SIN \<Rightarrow>
          add_derivative (left (tape ! i))
            (GRAD_COS L (value (tape ! left (tape ! i))) * derivative (tape ! i)) tape
      | GRAD_OP_COS \<Rightarrow>
          add_derivative (left (tape ! i))
            (- GRAD_SIN L (value (tape ! left (tape ! i))) * derivative (tape ! i)) tape
      | GRAD_OP_EXP \<Rightarrow>
          add_derivative (left (tape ! i))
            (GRAD_EXP L (value (tape ! left (tape ! i))) * derivative (tape ! i)) tape
      | GRAD_OP_LOG \<Rightarrow>
          add_derivative (left (tape ! i))
            (derivative (tape ! i) / value (tape ! left (tape ! i))) tape
      | GRAD_OP_NONE \<Rightarrow> tape)"

text \<open>
  \<^verbatim>\<open>for (ssize_t i = (ssize_t)grad_reverse_current_id - 1; i >= 0; --i)\<close>:
  \<open>backward_loop L n\<close> visits the indices \<open>n - 1\<close>, ..., \<open>0\<close> in this order.
\<close>

fun backward_loop :: "('a::{zero,one,plus,minus,uminus,times,inverse}) libm \<Rightarrow> nat \<Rightarrow> 'a grad_reverse_t list \<Rightarrow> 'a grad_reverse_t list" where
  "backward_loop L 0 tape = tape"
| "backward_loop L (Suc i) tape = backward_loop L i (backward_node L i tape)"

text \<open>
  \<^verbatim>\<open>for (size_t i = 0; i < grad_reverse_current_id; ++i) grad_reverse_tape[i].derivative = 0;\<close>
\<close>

definition zero_derivatives :: "nat \<Rightarrow> ('a::{zero,one,plus,minus,uminus,times,inverse}) grad_reverse_t list \<Rightarrow> 'a grad_reverse_t list" where
  "zero_derivatives n tape = fold (\<lambda>i t. t[i := (t ! i)\<lparr>derivative := 0\<rparr>]) [0..<n] tape"

definition grad_reverse_backward :: "('a::{zero,one,plus,minus,uminus,times,inverse}) libm \<Rightarrow> 'a reverse_state \<Rightarrow> nat \<Rightarrow> 'a reverse_state" where
  "grad_reverse_backward L st output =
     (let tape = zero_derivatives (grad_reverse_current_id st) (grad_reverse_tape st);
          tape = tape[output := (tape ! output)\<lparr>derivative := 1\<rparr>];
          tape = backward_loop L (grad_reverse_current_id st) tape
      in st\<lparr>grad_reverse_tape := tape\<rparr>)"

section \<open>Client programs\<close>

text \<open>
  A client calls the library in sequence and keeps what each call returns. A program
  is a list of calls; the operands of a call are results of earlier calls, named by
  their position in the list of results so far (the environment).
\<close>

datatype 'a fcmd =
    FInit 'a
  | FAdd nat nat
  | FAddC nat 'a
  | FMul nat nat
  | FMulC nat 'a
  | FInv nat
  | FDiv nat nat
  | FNeg nat
  | FSub nat nat
  | FExp nat
  | FLog nat
  | FSin nat
  | FCos nat
  | FTan nat
  | FSqrt nat
  | FPow nat 'a

fun forward_exec ::
  "('a::{zero,one,plus,minus,uminus,times,inverse}) libm \<Rightarrow> nat \<Rightarrow> 'a fcmd \<Rightarrow> forward_state \<times> 'a grad_forward_t list \<Rightarrow>
   error + (forward_state \<times> 'a grad_forward_t list)" where
  "forward_exec L N (FInit v) (st, env) =
     (case grad_forward_init N st v of
        Inl e \<Rightarrow> Inl e
      | Inr (x, st') \<Rightarrow> Inr (st', env @ [x]))"
| "forward_exec L N (FAdd a b) (st, env) = Inr (st, env @ [grad_forward_add N st (env ! a) (env ! b)])"
| "forward_exec L N (FAddC a c) (st, env) = Inr (st, env @ [grad_forward_add_c N st (env ! a) c])"
| "forward_exec L N (FMul a b) (st, env) = Inr (st, env @ [grad_forward_mul N st (env ! a) (env ! b)])"
| "forward_exec L N (FMulC a c) (st, env) = Inr (st, env @ [grad_forward_mul_c N st (env ! a) c])"
| "forward_exec L N (FInv a) (st, env) = Inr (st, env @ [grad_forward_inv N st (env ! a)])"
| "forward_exec L N (FDiv a b) (st, env) = Inr (st, env @ [grad_forward_div N st (env ! a) (env ! b)])"
| "forward_exec L N (FNeg a) (st, env) = Inr (st, env @ [grad_forward_neg N st (env ! a)])"
| "forward_exec L N (FSub a b) (st, env) = Inr (st, env @ [grad_forward_sub N st (env ! a) (env ! b)])"
| "forward_exec L N (FExp a) (st, env) = Inr (st, env @ [grad_forward_exp L N st (env ! a)])"
| "forward_exec L N (FLog a) (st, env) = Inr (st, env @ [grad_forward_log L N st (env ! a)])"
| "forward_exec L N (FSin a) (st, env) = Inr (st, env @ [grad_forward_sin L N st (env ! a)])"
| "forward_exec L N (FCos a) (st, env) = Inr (st, env @ [grad_forward_cos L N st (env ! a)])"
| "forward_exec L N (FTan a) (st, env) = Inr (st, env @ [grad_forward_tan L N st (env ! a)])"
| "forward_exec L N (FSqrt a) (st, env) = Inr (st, env @ [grad_forward_sqrt L N st (env ! a)])"
| "forward_exec L N (FPow a e) (st, env) = Inr (st, env @ [grad_forward_pow L N st (env ! a) e])"

fun forward_run ::
  "('a::{zero,one,plus,minus,uminus,times,inverse}) libm \<Rightarrow> nat \<Rightarrow> 'a fcmd list \<Rightarrow> forward_state \<times> 'a grad_forward_t list \<Rightarrow>
   error + (forward_state \<times> 'a grad_forward_t list)" where
  "forward_run L N [] s = Inr s"
| "forward_run L N (c # cs) s =
     (case forward_exec L N c s of Inl e \<Rightarrow> Inl e | Inr s' \<Rightarrow> forward_run L N cs s')"

text \<open>The operands of a call, and whether they name results that exist.\<close>

fun fcmd_refs :: "'a fcmd \<Rightarrow> nat list" where
  "fcmd_refs (FInit v) = []"
| "fcmd_refs (FAdd a b) = [a, b]"
| "fcmd_refs (FAddC a c) = [a]"
| "fcmd_refs (FMul a b) = [a, b]"
| "fcmd_refs (FMulC a c) = [a]"
| "fcmd_refs (FInv a) = [a]"
| "fcmd_refs (FDiv a b) = [a, b]"
| "fcmd_refs (FNeg a) = [a]"
| "fcmd_refs (FSub a b) = [a, b]"
| "fcmd_refs (FExp a) = [a]"
| "fcmd_refs (FLog a) = [a]"
| "fcmd_refs (FSin a) = [a]"
| "fcmd_refs (FCos a) = [a]"
| "fcmd_refs (FTan a) = [a]"
| "fcmd_refs (FSqrt a) = [a]"
| "fcmd_refs (FPow a e) = [a]"

fun fcmds_ok :: "nat \<Rightarrow> 'a fcmd list \<Rightarrow> bool" where
  "fcmds_ok n [] = True"
| "fcmds_ok n (c # cs) = (list_all (\<lambda>a. a < n) (fcmd_refs c) \<and> fcmds_ok (Suc n) cs)"

fun is_FInit :: "'a fcmd \<Rightarrow> bool" where
  "is_FInit (FInit v) = True"
| "is_FInit c = False"

text \<open>The calls that build reverse-mode nodes, and the calls of a reverse-mode client.\<close>

datatype 'a rcmd =
    RInit 'a
  | RAdd nat nat
  | RSub nat nat
  | RMul nat nat
  | RDiv nat nat
  | RNeg nat
  | RInv nat
  | RSin nat
  | RCos nat
  | RExp nat
  | RLog nat

datatype 'a rcall = Build "'a rcmd" | Backward nat

definition returned ::
  "nat list \<Rightarrow> error + (nat \<times> 'a reverse_state) \<Rightarrow> error + ('a reverse_state \<times> nat list)" where
  "returned env r = (case r of Inl e \<Rightarrow> Inl e | Inr (p, st) \<Rightarrow> Inr (st, env @ [p]))"

fun reverse_exec ::
  "('a::{zero,one,plus,minus,uminus,times,inverse}) libm \<Rightarrow> 'a rcmd \<Rightarrow> 'a reverse_state \<times> nat list \<Rightarrow> error + ('a reverse_state \<times> nat list)" where
  "reverse_exec L (RInit v) (st, env) = returned env (grad_reverse_init st v)"
| "reverse_exec L (RAdd a b) (st, env) = returned env (grad_reverse_add st (env ! a) (env ! b))"
| "reverse_exec L (RSub a b) (st, env) = returned env (grad_reverse_sub st (env ! a) (env ! b))"
| "reverse_exec L (RMul a b) (st, env) = returned env (grad_reverse_mul st (env ! a) (env ! b))"
| "reverse_exec L (RDiv a b) (st, env) = returned env (grad_reverse_div st (env ! a) (env ! b))"
| "reverse_exec L (RNeg a) (st, env) = returned env (grad_reverse_neg st (env ! a))"
| "reverse_exec L (RInv a) (st, env) = returned env (grad_reverse_inv st (env ! a))"
| "reverse_exec L (RSin a) (st, env) = returned env (grad_reverse_sin L st (env ! a))"
| "reverse_exec L (RCos a) (st, env) = returned env (grad_reverse_cos L st (env ! a))"
| "reverse_exec L (RExp a) (st, env) = returned env (grad_reverse_exp L st (env ! a))"
| "reverse_exec L (RLog a) (st, env) = returned env (grad_reverse_log L st (env ! a))"

fun reverse_call ::
  "('a::{zero,one,plus,minus,uminus,times,inverse}) libm \<Rightarrow> 'a rcall \<Rightarrow> 'a reverse_state \<times> nat list \<Rightarrow> error + ('a reverse_state \<times> nat list)" where
  "reverse_call L (Build c) s = reverse_exec L c s"
| "reverse_call L (Backward a) (st, env) = Inr (grad_reverse_backward L st (env ! a), env)"

fun reverse_run ::
  "('a::{zero,one,plus,minus,uminus,times,inverse}) libm \<Rightarrow> 'a rcall list \<Rightarrow> 'a reverse_state \<times> nat list \<Rightarrow> error + ('a reverse_state \<times> nat list)" where
  "reverse_run L [] s = Inr s"
| "reverse_run L (c # cs) s =
     (case reverse_call L c s of Inl e \<Rightarrow> Inl e | Inr s' \<Rightarrow> reverse_run L cs s')"

fun rcmd_refs :: "'a rcmd \<Rightarrow> nat list" where
  "rcmd_refs (RInit v) = []"
| "rcmd_refs (RAdd a b) = [a, b]"
| "rcmd_refs (RSub a b) = [a, b]"
| "rcmd_refs (RMul a b) = [a, b]"
| "rcmd_refs (RDiv a b) = [a, b]"
| "rcmd_refs (RNeg a) = [a]"
| "rcmd_refs (RInv a) = [a]"
| "rcmd_refs (RSin a) = [a]"
| "rcmd_refs (RCos a) = [a]"
| "rcmd_refs (RExp a) = [a]"
| "rcmd_refs (RLog a) = [a]"

fun rcalls_ok :: "nat \<Rightarrow> 'a rcall list \<Rightarrow> bool" where
  "rcalls_ok n [] = True"
| "rcalls_ok n (Build c # cs) = (list_all (\<lambda>a. a < n) (rcmd_refs c) \<and> rcalls_ok (Suc n) cs)"
| "rcalls_ok n (Backward a # cs) = (a < n \<and> rcalls_ok n cs)"

text \<open>The number of tape nodes a call appends.\<close>

fun rcmd_nodes :: "'a rcmd \<Rightarrow> nat" where
  "rcmd_nodes (RSub a b) = 2"
| "rcmd_nodes (RDiv a b) = 2"
| "rcmd_nodes c = 1"

fun rcall_nodes :: "'a rcall \<Rightarrow> nat" where
  "rcall_nodes (Build c) = rcmd_nodes c"
| "rcall_nodes (Backward a) = 0"

section \<open>The recorded graph\<close>

text \<open>
  The operand pointers the backward pass follows at a node: none at a leaf, \<open>left\<close> at
  a unary node, \<open>left\<close> and \<open>right\<close> at \<open>ADD\<close> and \<open>MUL\<close>.
\<close>

definition operand_refs :: "'a grad_reverse_t \<Rightarrow> nat list" where
  "operand_refs n =
     (case operation n of
        GRAD_OP_NONE \<Rightarrow> []
      | GRAD_OP_ADD \<Rightarrow> [left n, right n]
      | GRAD_OP_MUL \<Rightarrow> [left n, right n]
      | _ \<Rightarrow> [left n])"

text \<open>
  The value the constructor of a node computes from the values \<open>vs\<close> of the nodes
  before it (the value stored at a leaf).
\<close>

definition node_eval :: "('a::{zero,one,plus,minus,uminus,times,inverse}) libm \<Rightarrow> 'a list \<Rightarrow> 'a grad_reverse_t \<Rightarrow> 'a" where
  "node_eval L vs n =
     (case operation n of
        GRAD_OP_NONE \<Rightarrow> value n
      | GRAD_OP_ADD \<Rightarrow> vs ! left n + vs ! right n
      | GRAD_OP_MUL \<Rightarrow> vs ! left n * vs ! right n
      | GRAD_OP_NEG \<Rightarrow> - vs ! left n
      | GRAD_OP_INV \<Rightarrow> 1 / vs ! left n
      | GRAD_OP_SIN \<Rightarrow> GRAD_SIN L (vs ! left n)
      | GRAD_OP_COS \<Rightarrow> GRAD_COS L (vs ! left n)
      | GRAD_OP_EXP \<Rightarrow> GRAD_EXP L (vs ! left n)
      | GRAD_OP_LOG \<Rightarrow> GRAD_LOG L (vs ! left n))"

text \<open>
  A node is well formed when its operands come before it and its value is the one its
  operation computes from the values of its operands.
\<close>

definition node_wf :: "('a::{zero,one,plus,minus,uminus,times,inverse}) libm \<Rightarrow> 'a grad_reverse_t list \<Rightarrow> nat \<Rightarrow> bool" where
  "node_wf L tape i =
     (list_all (\<lambda>p. p < i) (operand_refs (tape ! i)) \<and>
      value (tape ! i) = node_eval L (map value tape) (tape ! i))"

definition tape_wf :: "('a::{zero,one,plus,minus,uminus,times,inverse}) libm \<Rightarrow> 'a reverse_state \<Rightarrow> bool" where
  "tape_wf L st =
     (grad_reverse_current_id st \<le> length (grad_reverse_tape st) \<and>
      list_all (node_wf L (grad_reverse_tape st)) [0..<grad_reverse_current_id st])"

text \<open>The forward-mode call that corresponds to a reverse-mode constructor call.\<close>

fun forward_of :: "'a rcmd \<Rightarrow> 'a fcmd" where
  "forward_of (RInit v) = FInit v"
| "forward_of (RAdd a b) = FAdd a b"
| "forward_of (RSub a b) = FSub a b"
| "forward_of (RMul a b) = FMul a b"
| "forward_of (RDiv a b) = FDiv a b"
| "forward_of (RNeg a) = FNeg a"
| "forward_of (RInv a) = FInv a"
| "forward_of (RSin a) = FSin a"
| "forward_of (RCos a) = FCos a"
| "forward_of (RExp a) = FExp a"
| "forward_of (RLog a) = FLog a"

section \<open>Forward mode: the derivative loop\<close>

lemma fold_update_length:
  "length (fold (\<lambda>i d. d[i := f i]) is d) = length d"
  by (induction "is" arbitrary: d) simp_all

lemma fold_update_upt_nth:
  "n \<le> length d \<Longrightarrow> j < length d \<Longrightarrow>
   fold (\<lambda>i d. d[i := f i]) [0..<n] d ! j = (if j < n then f j else d ! j)"
  by (induction n) (auto simp: nth_list_update less_Suc_eq fold_update_length)

text \<open>
  C4: \<^verbatim>\<open>grad_forward_init\<close> fails with the capacity violation when the counter has
  reached \<open>N\<close>; otherwise the Variable it returns has the counter as its slot id, the
  argument as its value and a derivative vector of length \<open>N\<close> that is 1 at the slot
  id and 0 elsewhere, and the counter is one more than before.
\<close>

theorem grad_forward_init_spec:
  "grad_forward_init N st v =
     (if N \<le> grad_forward_current_id st then Inl CapacityViolation
      else Inr (\<lparr>slot_id = grad_forward_current_id st, grad_forward_t.value = v,
                 grad_forward_t.derivative = map (\<lambda>i. if i = grad_forward_current_id st then 1 else 0) [0..<N]\<rparr>,
                st\<lparr>grad_forward_current_id := grad_forward_current_id st + 1\<rparr>))"
proof (cases "N \<le> grad_forward_current_id st")
  case True
  then show ?thesis by (simp add: grad_forward_init_def)
next
  case False
  then have lt: "grad_forward_current_id st < N" by simp
  have "(replicate N 0)[grad_forward_current_id st := 1] =
        map (\<lambda>i. if i = grad_forward_current_id st then 1 else 0) [0..<N]"
    by (rule nth_equalityI) (simp_all add: nth_list_update)
  with lt show ?thesis
    by (simp add: grad_forward_init_def forward_zero_def Let_def)
qed

section \<open>Reverse mode: the constructors keep the graph well formed\<close>

definition push_node :: "'a reverse_state \<Rightarrow> ('a grad_reverse_t \<Rightarrow> 'a grad_reverse_t) \<Rightarrow> 'a reverse_state" where
  "push_node st f =
     st\<lparr>grad_reverse_current_id := grad_reverse_current_id st + 1,
        grad_reverse_tape := (grad_reverse_tape st)[grad_reverse_current_id st := f (grad_reverse_tape st ! grad_reverse_current_id st)]\<rparr>"

definition has_room :: "'a reverse_state \<Rightarrow> bool" where
  "has_room st = (grad_reverse_current_id st < length (grad_reverse_tape st))"

lemma grad_reverse_init_eq:
  "grad_reverse_init st v =
     (if has_room st
      then Inr (grad_reverse_current_id st,
                push_node st (\<lambda>n. n\<lparr>value := v, operation := GRAD_OP_NONE, derivative := 0\<rparr>))
      else Inl CapacityViolation)"
  by (simp add: grad_reverse_init_def has_room_def GRAD_REVERSE_TAPE_SIZE_def push_node_def
      node_update_def Let_def)

lemma grad_reverse_add_eq:
  "grad_reverse_add st l r =
     (if has_room st
      then Inr (grad_reverse_current_id st,
                push_node st (\<lambda>n. n\<lparr>value := node_value st l + node_value st r,
                  derivative := 0, operation := GRAD_OP_ADD, left := l, right := r\<rparr>))
      else Inl CapacityViolation)"
  by (simp add: grad_reverse_add_def grad_reverse_init_eq has_room_def push_node_def
      node_update_def Let_def)

lemma grad_reverse_mul_eq:
  "grad_reverse_mul st l r =
     (if has_room st
      then Inr (grad_reverse_current_id st,
                push_node st (\<lambda>n. n\<lparr>value := node_value st l * node_value st r,
                  derivative := 0, operation := GRAD_OP_MUL, left := l, right := r\<rparr>))
      else Inl CapacityViolation)"
  by (simp add: grad_reverse_mul_def grad_reverse_init_eq has_room_def push_node_def
      node_update_def Let_def)

text \<open>The unary constructors differ in the value and the tag only.\<close>

definition unary_node ::
  "grad_reverse_op_t \<Rightarrow> ('a::{zero,one,plus,minus,uminus,times,inverse}) \<Rightarrow> nat \<Rightarrow> 'a grad_reverse_t \<Rightarrow> 'a grad_reverse_t" where
  "unary_node tag v g n = n\<lparr>value := v, derivative := 0, operation := tag, left := g\<rparr>"

lemma grad_reverse_unary_eq:
  "grad_reverse_neg st g =
     (if has_room st
      then Inr (grad_reverse_current_id st, push_node st (unary_node GRAD_OP_NEG (- node_value st g) g))
      else Inl CapacityViolation)"
  "grad_reverse_inv st g =
     (if has_room st
      then Inr (grad_reverse_current_id st, push_node st (unary_node GRAD_OP_INV (1 / node_value st g) g))
      else Inl CapacityViolation)"
  "grad_reverse_sin L st g =
     (if has_room st
      then Inr (grad_reverse_current_id st, push_node st (unary_node GRAD_OP_SIN (GRAD_SIN L (node_value st g)) g))
      else Inl CapacityViolation)"
  "grad_reverse_cos L st g =
     (if has_room st
      then Inr (grad_reverse_current_id st, push_node st (unary_node GRAD_OP_COS (GRAD_COS L (node_value st g)) g))
      else Inl CapacityViolation)"
  "grad_reverse_exp L st g =
     (if has_room st
      then Inr (grad_reverse_current_id st, push_node st (unary_node GRAD_OP_EXP (GRAD_EXP L (node_value st g)) g))
      else Inl CapacityViolation)"
  "grad_reverse_log L st g =
     (if has_room st
      then Inr (grad_reverse_current_id st, push_node st (unary_node GRAD_OP_LOG (GRAD_LOG L (node_value st g)) g))
      else Inl CapacityViolation)"
  by (simp_all add: grad_reverse_neg_def grad_reverse_inv_def grad_reverse_sin_def
      grad_reverse_cos_def grad_reverse_exp_def grad_reverse_log_def unary_node_def
      grad_reverse_init_eq has_room_def push_node_def node_update_def Let_def)

lemma push_node_current_id [simp]:
  "grad_reverse_current_id (push_node st f) = Suc (grad_reverse_current_id st)"
  by (simp add: push_node_def)

lemma push_node_length [simp]:
  "length (grad_reverse_tape (push_node st f)) = length (grad_reverse_tape st)"
  by (simp add: push_node_def)

lemma push_node_nth:
  "has_room st \<Longrightarrow>
   grad_reverse_tape (push_node st f) ! i =
     (if i = grad_reverse_current_id st then f (grad_reverse_tape st ! i) else grad_reverse_tape st ! i)"
  by (simp add: push_node_def has_room_def nth_list_update)

lemma push_node_has_room [simp]:
  "has_room (push_node st f) = (Suc (grad_reverse_current_id st) < length (grad_reverse_tape st))"
  by (simp add: has_room_def)

lemma node_wf_cong:
  assumes "tape' ! i = tape ! i" and "\<forall>p<i. value (tape' ! p) = value (tape ! p)"
    and "i < length tape" and "length tape' = length tape"
  shows "node_wf L tape' i = node_wf L tape i"
  using assms
  by (auto simp: node_wf_def node_eval_def operand_refs_def split: grad_reverse_op_t.splits)

lemma tape_wf_push:
  assumes wf: "tape_wf L st" and room: "has_room st"
    and refs: "list_all (\<lambda>p. p < grad_reverse_current_id st)
                 (operand_refs (f (grad_reverse_tape st ! grad_reverse_current_id st)))"
    and val: "value (f (grad_reverse_tape st ! grad_reverse_current_id st)) =
              node_eval L (map value (grad_reverse_tape st))
                (f (grad_reverse_tape st ! grad_reverse_current_id st))"
  shows "tape_wf L (push_node st f)"
proof -
  let ?c = "grad_reverse_current_id st"
  let ?T = "grad_reverse_tape st"
  let ?T' = "grad_reverse_tape (push_node st f)"
  have len: "length ?T' = length ?T" by simp
  have c: "?c < length ?T" using room by (simp add: has_room_def)
  have old: "?T' ! p = ?T ! p" if "p < ?c" for p
    using that room by (simp add: push_node_nth)
  have "node_wf L ?T' i" if "i < Suc ?c" for i
  proof (cases "i < ?c")
    case True
    then have "node_wf L ?T i" using wf by (simp add: tape_wf_def list_all_iff)
    moreover have "node_wf L ?T' i = node_wf L ?T i"
      using True c old by (intro node_wf_cong) auto
    ultimately show ?thesis by simp
  next
    case False
    then have i: "i = ?c" using that by simp
    let ?n = "f (?T ! ?c)"
    have new: "?T' ! ?c = ?n" using room by (simp add: push_node_nth)
    have agree: "\<forall>p \<in> set (operand_refs ?n). map value ?T' ! p = map value ?T ! p"
      using refs c old by (auto simp: list_all_iff)
    have "node_eval L (map value ?T') ?n = node_eval L (map value ?T) ?n"
      using agree by (auto simp: node_eval_def operand_refs_def split: grad_reverse_op_t.splits)
    then show ?thesis
      using refs val new i by (simp add: node_wf_def)
  qed
  then show ?thesis
    using c by (simp add: tape_wf_def list_all_iff)
qed


definition built :: "('a::{zero,one,plus,minus,uminus,times,inverse}) libm \<Rightarrow> 'a reverse_state \<Rightarrow> nat \<times> 'a reverse_state \<Rightarrow> bool" where
  "built L st r =
     (tape_wf L (snd r) \<and> fst r < grad_reverse_current_id (snd r) \<and>
      grad_reverse_current_id st \<le> fst r \<and>
      length (grad_reverse_tape (snd r)) = length (grad_reverse_tape st) \<and>
      (\<forall>i<grad_reverse_current_id st. grad_reverse_tape (snd r) ! i = grad_reverse_tape st ! i))"

lemma tape_wf_bound: "tape_wf L st \<Longrightarrow> grad_reverse_current_id st \<le> length (grad_reverse_tape st)"
  by (simp add: tape_wf_def)

lemma built_push:
  assumes "tape_wf L st" "has_room st"
    and "list_all (\<lambda>p. p < grad_reverse_current_id st)
                 (operand_refs (f (grad_reverse_tape st ! grad_reverse_current_id st)))"
    and "value (f (grad_reverse_tape st ! grad_reverse_current_id st)) =
              node_eval L (map value (grad_reverse_tape st))
                (f (grad_reverse_tape st ! grad_reverse_current_id st))"
  shows "built L st (grad_reverse_current_id st, push_node st f)"
  using tape_wf_push[of L st f] assms by (simp add: built_def push_node_nth)

lemma init_built:
  "tape_wf L st \<Longrightarrow> grad_reverse_init st v = Inr r \<Longrightarrow> built L st r"
  by (auto simp: grad_reverse_init_eq operand_refs_def node_eval_def split: if_splits
      intro!: built_push)

lemma add_built:
  "tape_wf L st \<Longrightarrow> l < grad_reverse_current_id st \<Longrightarrow> r < grad_reverse_current_id st \<Longrightarrow>
   grad_reverse_add st l r = Inr res \<Longrightarrow> built L st res"
  by (auto simp: grad_reverse_add_eq operand_refs_def node_eval_def node_value_def has_room_def
      split: if_splits intro!: built_push)

lemma mul_built:
  "tape_wf L st \<Longrightarrow> l < grad_reverse_current_id st \<Longrightarrow> r < grad_reverse_current_id st \<Longrightarrow>
   grad_reverse_mul st l r = Inr res \<Longrightarrow> built L st res"
  by (auto simp: grad_reverse_mul_eq operand_refs_def node_eval_def node_value_def has_room_def
      split: if_splits intro!: built_push)

lemma unary_built:
  assumes "tape_wf L st" "g < grad_reverse_current_id st"
  shows "grad_reverse_neg st g = Inr res \<Longrightarrow> built L st res"
    and "grad_reverse_inv st g = Inr res \<Longrightarrow> built L st res"
    and "grad_reverse_sin L st g = Inr res \<Longrightarrow> built L st res"
    and "grad_reverse_cos L st g = Inr res \<Longrightarrow> built L st res"
    and "grad_reverse_exp L st g = Inr res \<Longrightarrow> built L st res"
    and "grad_reverse_log L st g = Inr res \<Longrightarrow> built L st res"
  using assms
  by (auto simp: grad_reverse_unary_eq unary_node_def operand_refs_def node_eval_def
      node_value_def has_room_def split: if_splits intro!: built_push)

lemma built_trans:
  "built L st (p, st1) \<Longrightarrow> built L st1 res \<Longrightarrow> built L st res"
  by (auto simp: built_def)

lemma sub_built:
  assumes "tape_wf L st" "l < grad_reverse_current_id st" "r < grad_reverse_current_id st"
    and "grad_reverse_sub st l r = Inr res"
  shows "built L st res"
proof -
  from assms(4) obtain q st1 where n: "grad_reverse_neg st r = Inr (q, st1)"
    and a: "grad_reverse_add st1 l q = Inr res"
    by (auto simp: grad_reverse_sub_def split: sum.splits)
  have b1: "built L st (q, st1)" using unary_built(1)[OF assms(1,3) n] .
  then have "built L st1 res"
    using a assms(2) by (intro add_built[of L st1 l q]) (auto simp: built_def)
  with b1 show ?thesis by (rule built_trans)
qed

lemma div_built:
  assumes "tape_wf L st" "l < grad_reverse_current_id st" "r < grad_reverse_current_id st"
    and "grad_reverse_div st l r = Inr res"
  shows "built L st res"
proof -
  from assms(4) obtain q st1 where n: "grad_reverse_inv st r = Inr (q, st1)"
    and a: "grad_reverse_mul st1 l q = Inr res"
    by (auto simp: grad_reverse_div_def split: sum.splits)
  have b1: "built L st (q, st1)" using unary_built(2)[OF assms(1,3) n] .
  then have "built L st1 res"
    using a assms(2) by (intro mul_built[of L st1 l q]) (auto simp: built_def)
  with b1 show ?thesis by (rule built_trans)
qed

definition reverse_inv :: "('a::{zero,one,plus,minus,uminus,times,inverse}) libm \<Rightarrow> 'a reverse_state \<times> nat list \<Rightarrow> bool" where
  "reverse_inv L s = (tape_wf L (fst s) \<and> list_all (\<lambda>p. p < grad_reverse_current_id (fst s)) (snd s))"

definition extends :: "'a reverse_state \<times> nat list \<Rightarrow> 'a reverse_state \<times> nat list \<Rightarrow> bool" where
  "extends s s' =
     (length (grad_reverse_tape (fst s')) = length (grad_reverse_tape (fst s)) \<and>
      grad_reverse_current_id (fst s) \<le> grad_reverse_current_id (fst s') \<and>
      take (length (snd s)) (snd s') = snd s \<and>
      (\<forall>i<grad_reverse_current_id (fst s).
         grad_reverse_tape (fst s') ! i = grad_reverse_tape (fst s) ! i))"

lemma returned_built:
  assumes "reverse_inv L (st, env)" "returned env r = Inr s'" "\<And>res. r = Inr res \<Longrightarrow> built L st res"
  shows "reverse_inv L s' \<and> length (snd s') = Suc (length env) \<and> extends (st, env) s'"
  using assms
  by (fastforce simp: returned_def reverse_inv_def built_def extends_def list_all_iff
      split: sum.splits)

lemma reverse_exec_inv:
  assumes inv: "reverse_inv L (st, env)" and ok: "list_all (\<lambda>a. a < length env) (rcmd_refs c)"
    and ex: "reverse_exec L c (st, env) = Inr s'"
  shows "reverse_inv L s' \<and> length (snd s') = Suc (length env) \<and> extends (st, env) s'"
proof -
  have wf: "tape_wf L st" using inv by (simp add: reverse_inv_def)
  have live: "env ! a < grad_reverse_current_id st" if "a < length env" for a
    using inv that by (simp add: reverse_inv_def list_all_length)
  note step = returned_built[OF inv]
  show ?thesis
  proof (cases c)
    case (RInit v)
    show ?thesis
      by (rule step[of "grad_reverse_init st v"]) (use ex RInit in \<open>auto intro: init_built[OF wf]\<close>)
  next
    case (RAdd a b)
    show ?thesis
      by (rule step[of "grad_reverse_add st (env ! a) (env ! b)"])
        (use ex ok live RAdd in \<open>auto intro: add_built[OF wf]\<close>)
  next
    case (RSub a b)
    show ?thesis
      by (rule step[of "grad_reverse_sub st (env ! a) (env ! b)"])
        (use ex ok live RSub in \<open>auto intro: sub_built[OF wf]\<close>)
  next
    case (RMul a b)
    show ?thesis
      by (rule step[of "grad_reverse_mul st (env ! a) (env ! b)"])
        (use ex ok live RMul in \<open>auto intro: mul_built[OF wf]\<close>)
  next
    case (RDiv a b)
    show ?thesis
      by (rule step[of "grad_reverse_div st (env ! a) (env ! b)"])
        (use ex ok live RDiv in \<open>auto intro: div_built[OF wf]\<close>)
  next
    case (RNeg a)
    show ?thesis
      by (rule step[of "grad_reverse_neg st (env ! a)"])
        (use ex ok live RNeg in \<open>auto intro: unary_built[OF wf]\<close>)
  next
    case (RInv a)
    show ?thesis
      by (rule step[of "grad_reverse_inv st (env ! a)"])
        (use ex ok live RInv in \<open>auto intro: unary_built[OF wf]\<close>)
  next
    case (RSin a)
    show ?thesis
      by (rule step[of "grad_reverse_sin L st (env ! a)"])
        (use ex ok live RSin in \<open>auto intro: unary_built[OF wf]\<close>)
  next
    case (RCos a)
    show ?thesis
      by (rule step[of "grad_reverse_cos L st (env ! a)"])
        (use ex ok live RCos in \<open>auto intro: unary_built[OF wf]\<close>)
  next
    case (RExp a)
    show ?thesis
      by (rule step[of "grad_reverse_exp L st (env ! a)"])
        (use ex ok live RExp in \<open>auto intro: unary_built[OF wf]\<close>)
  next
    case (RLog a)
    show ?thesis
      by (rule step[of "grad_reverse_log L st (env ! a)"])
        (use ex ok live RLog in \<open>auto intro: unary_built[OF wf]\<close>)
  qed
qed

section \<open>Reverse mode: the backward pass changes adjoints only\<close>

definition strip :: "('a::zero) grad_reverse_t \<Rightarrow> 'a grad_reverse_t" where
  "strip n = n\<lparr>derivative := 0\<rparr>"

lemma strip_fields:
  assumes "strip a = strip b"
  shows "value a = value b" "operation a = operation b" "left a = left b" "right a = right b"
proof -
  have "value (strip a) = value (strip b)" "operation (strip a) = operation (strip b)"
    "left (strip a) = left (strip b)" "right (strip a) = right (strip b)"
    using assms by simp_all
  then show "value a = value b" "operation a = operation b" "left a = left b" "right a = right b"
    by (simp_all add: strip_def)
qed

lemma strip_nth:
  "map strip tape' = map strip tape \<Longrightarrow> i < length tape \<Longrightarrow> strip (tape' ! i) = strip (tape ! i)"
  by (metis length_map nth_map)

lemma set_derivative_strip:
  "map strip (tape[p := (tape ! p)\<lparr>derivative := x\<rparr>]) = map strip tape"
proof (cases "p < length tape")
  case True
  have "strip ((tape ! p)\<lparr>derivative := x\<rparr>) = map strip tape ! p"
    using True by (simp add: strip_def)
  then show ?thesis
    by (simp add: map_update)
next
  case False
  then show ?thesis by (simp add: list_update_beyond)
qed

lemma add_derivative_strip [simp]: "map strip (add_derivative p x tape) = map strip tape"
  by (simp add: add_derivative_def set_derivative_strip)

lemma add_derivative_length [simp]: "length (add_derivative p x tape) = length tape"
  by (simp add: add_derivative_def)

lemma backward_node_strip [simp]: "map strip (backward_node L i tape) = map strip tape"
  by (simp add: backward_node_def Let_def split: grad_reverse_op_t.splits)

lemma backward_loop_strip [simp]: "map strip (backward_loop L n tape) = map strip tape"
  by (induction n arbitrary: tape) simp_all

lemma zero_derivatives_strip [simp]: "map strip (zero_derivatives n tape) = map strip tape"
proof -
  have "map strip (fold (\<lambda>i t. t[i := (t ! i)\<lparr>derivative := 0\<rparr>]) is tape) = map strip tape" for "is"
  proof (induction "is" arbitrary: tape)
    case Nil
    show ?case by simp
  next
    case (Cons i "is")
    have "map strip (tape[i := (tape ! i)\<lparr>derivative := 0\<rparr>]) = map strip tape"
      by (rule set_derivative_strip)
    then show ?case using Cons by simp
  qed
  then show ?thesis by (simp add: zero_derivatives_def)
qed

lemma map_strip_length: "map strip tape' = map strip tape \<Longrightarrow> length tape' = length tape"
  by (metis length_map)

lemma grad_reverse_backward_strip:
  "map strip (grad_reverse_tape (grad_reverse_backward L st out)) = map strip (grad_reverse_tape st)"
proof -
  let ?z = "zero_derivatives (grad_reverse_current_id st) (grad_reverse_tape st)"
  have "map strip (?z[out := (?z ! out)\<lparr>derivative := 1\<rparr>]) = map strip ?z"
    by (rule set_derivative_strip)
  then show ?thesis
    by (simp add: grad_reverse_backward_def Let_def)
qed

lemma grad_reverse_backward_current_id [simp]:
  "grad_reverse_current_id (grad_reverse_backward L st out) = grad_reverse_current_id st"
  by (simp add: grad_reverse_backward_def Let_def)

lemma node_wf_strip:
  assumes eq: "map strip tape' = map strip tape" and i: "i < length tape"
  shows "node_wf L tape' i = node_wf L tape i"
proof -
  have len: "length tape' = length tape" using eq by (rule map_strip_length)
  have f: "value (tape' ! j) = value (tape ! j)" "operation (tape' ! j) = operation (tape ! j)"
    "left (tape' ! j) = left (tape ! j)" "right (tape' ! j) = right (tape ! j)"
    if "j < length tape" for j
    using strip_fields[OF strip_nth[OF eq that]] by simp_all
  have refs: "operand_refs (tape' ! i) = operand_refs (tape ! i)"
    using f[OF i] by (auto simp: operand_refs_def split: grad_reverse_op_t.splits)
  have "node_eval L (map value tape') (tape' ! i) = node_eval L (map value tape) (tape ! i)"
    if "list_all (\<lambda>p. p < i) (operand_refs (tape ! i))"
    using that f[OF i] f i len
    by (auto simp: node_eval_def operand_refs_def split: grad_reverse_op_t.splits)
  then show ?thesis
    using refs f[OF i] by (auto simp: node_wf_def)
qed

lemma tape_wf_strip:
  assumes "map strip (grad_reverse_tape st') = map strip (grad_reverse_tape st)"
    and "grad_reverse_current_id st' = grad_reverse_current_id st" and "tape_wf L st"
  shows "tape_wf L st'"
  using assms node_wf_strip[OF assms(1)] map_strip_length[OF assms(1)]
  by (auto simp: tape_wf_def list_all_iff)

lemma tape_wf_backward: "tape_wf L st \<Longrightarrow> tape_wf L (grad_reverse_backward L st out)"
  by (rule tape_wf_strip[OF grad_reverse_backward_strip]) simp_all

section \<open>Reverse mode: what a run keeps\<close>

lemma reverse_call_inv:
  assumes inv: "reverse_inv L s" and ok: "rcalls_ok (length (snd s)) [c]"
    and ex: "reverse_call L c s = Inr s'"
  shows "reverse_inv L s' \<and> rcalls_ok (length (snd s')) cs = rcalls_ok (length (snd s)) (c # cs) \<and>
         length (grad_reverse_tape (fst s')) = length (grad_reverse_tape (fst s))"
proof (cases c)
  case (Build b)
  obtain st env where s: "s = (st, env)" by (cases s)
  have "reverse_inv L s' \<and> length (snd s') = Suc (length env) \<and> extends (st, env) s'"
    using reverse_exec_inv[of L st env b s'] inv ok ex Build s by simp
  then show ?thesis using ok Build s by (simp add: extends_def)
next
  case (Backward a)
  obtain st env where s: "s = (st, env)" by (cases s)
  have s': "s' = (grad_reverse_backward L st (env ! a), env)" using ex Backward s by simp
  have "tape_wf L (grad_reverse_backward L st (env ! a))"
    using inv s by (simp add: reverse_inv_def tape_wf_backward)
  moreover have "length (grad_reverse_tape (grad_reverse_backward L st (env ! a))) = length (grad_reverse_tape st)"
    using map_strip_length[OF grad_reverse_backward_strip] .
  ultimately show ?thesis using inv s s' ok Backward by (simp add: reverse_inv_def)
qed

lemma rcalls_ok_Cons: "rcalls_ok n (c # cs) \<Longrightarrow> rcalls_ok n [c]"
  by (cases c) simp_all

lemma reverse_run_inv:
  "reverse_inv L s \<Longrightarrow> rcalls_ok (length (snd s)) calls \<Longrightarrow> reverse_run L calls s = Inr s' \<Longrightarrow>
   reverse_inv L s' \<and> length (grad_reverse_tape (fst s')) = length (grad_reverse_tape (fst s))"
proof (induction calls arbitrary: s)
  case Nil
  then show ?case by simp
next
  case (Cons c calls)
  from Cons.prems(3) obtain s1 where c: "reverse_call L c s = Inr s1"
    and r: "reverse_run L calls s1 = Inr s'"
    by (auto split: sum.splits)
  have st: "reverse_inv L s1 \<and> rcalls_ok (length (snd s1)) calls = rcalls_ok (length (snd s)) (c # calls) \<and>
         length (grad_reverse_tape (fst s1)) = length (grad_reverse_tape (fst s))"
    using reverse_call_inv[OF Cons.prems(1) rcalls_ok_Cons[OF Cons.prems(2)] c] .
  then show ?case using Cons.IH[of s1] r Cons.prems(2) by simp
qed

lemma reverse_inv_start: "reverse_inv L (grad_reverse_start_scope st, [])"
  by (simp add: reverse_inv_def tape_wf_def grad_reverse_start_scope_def)

text \<open>
  C6: in every tape a client builds within one scope, from \<^verbatim>\<open>grad_reverse_start_scope\<close>
  on and with operands that are results of earlier calls, every operand pointer of a
  live node (the pointers the backward pass follows at it) points to a node with a
  strictly smaller tape index; so the visit from the highest live index down to 0
  reaches every node before its operands.
\<close>

theorem tape_operands_precede:
  assumes "reverse_run L calls (grad_reverse_start_scope st0, []) = Inr (st, env)"
    and "rcalls_ok 0 calls"
    and "i < grad_reverse_current_id st"
    and "p \<in> set (operand_refs (grad_reverse_tape st ! i))"
  shows "p < i"
proof -
  have "reverse_inv L (st, env)"
    using reverse_run_inv[of L "(grad_reverse_start_scope st0, [])" calls "(st, env)"]
      reverse_inv_start[of L st0] assms(1,2) by simp
  then have "node_wf L (grad_reverse_tape st) i"
    using assms(3) by (simp add: reverse_inv_def tape_wf_def list_all_iff)
  then show ?thesis using assms(4) by (simp add: node_wf_def list_all_iff)
qed


lemmas run_eval = reverse_state0_def grad_reverse_start_scope_def
     grad_reverse_init_eq grad_reverse_add_eq grad_reverse_mul_eq grad_reverse_unary_eq
     grad_reverse_sub_def grad_reverse_div_def returned_def has_room_def push_node_def
     unary_node_def node_value_def

lemma example_run:
  "(case reverse_run libm32 [Build (RInit (Finite False 3)), Build (RInit (Finite False 5)), Build (RSub 0 1), Build (RMul 2 0)]
      (grad_reverse_start_scope (reverse_state0 8), []) of
     Inr (st, env) \<Rightarrow> grad_reverse_current_id st = 5 \<and> operand_refs (grad_reverse_tape st ! 3) = [0, 2]
       \<and> env = [0, 1, 3, 4]
   | Inl e \<Rightarrow> False)"
  by (simp add: run_eval operand_refs_def eval_nat_numeral)

theorem tape_operands_precede_witness:
  "\<exists>st env.
     reverse_run libm32 [Build (RInit (Finite False 3)), Build (RInit (Finite False 5)), Build (RSub 0 1), Build (RMul 2 0)]
       (grad_reverse_start_scope (reverse_state0 8), []) = Inr (st, env) \<and>
     rcalls_ok 0 [Build (RInit (Finite False 3)), Build (RInit (Finite False 5)), Build (RSub 0 1), Build (RMul 2 0)] \<and>
     3 < grad_reverse_current_id st \<and>
     2 \<in> set (operand_refs (grad_reverse_tape st ! 3)) \<and> (2::nat) < 3"
proof -
  let ?calls = "[Build (RInit (Finite False 3)), Build (RInit (Finite False 5)), Build (RSub 0 1), Build (RMul 2 0)]"
  obtain st env where run: "reverse_run libm32 ?calls (grad_reverse_start_scope (reverse_state0 8), []) = Inr (st, env)"
    and c: "3 < grad_reverse_current_id st" and r: "2 \<in> set (operand_refs (grad_reverse_tape st ! 3))"
    using example_run by (auto split: sum.splits)
  have ok: "rcalls_ok 0 ?calls" by simp
  from tape_operands_precede[OF run ok c r] run ok c r show ?thesis by blast
qed


section \<open>Capacity\<close>

lemma grad_forward_init_eq:
  "grad_forward_init N st v =
     (if grad_forward_current_id st < N
      then Inr (\<lparr>slot_id = grad_forward_current_id st, grad_forward_t.value = v,
                 grad_forward_t.derivative = (replicate N 0)[grad_forward_current_id st := 1]\<rparr>,
                st\<lparr>grad_forward_current_id := Suc (grad_forward_current_id st)\<rparr>)
      else Inl CapacityViolation)"
  by (simp add: grad_forward_init_def forward_zero_def Let_def)

lemma forward_exec_op:
  "\<not> is_FInit c \<Longrightarrow> \<exists>x. forward_exec L N c (st, env) = Inr (st, env @ [x])"
  by (cases c) simp_all

lemma forward_exec_result:
  "forward_exec L N c (st, env) =
     (if is_FInit c \<and> N \<le> grad_forward_current_id st then Inl CapacityViolation
      else Inr (st\<lparr>grad_forward_current_id :=
                     grad_forward_current_id st + (if is_FInit c then 1 else 0)\<rparr>,
                snd (projr (forward_exec L N c (st, env)))))"
  by (cases c) (simp_all add: grad_forward_init_eq)

lemma forward_exec_length:
  "forward_exec L N c (st, env) = Inr (st', env') \<Longrightarrow> length env' = Suc (length env)"
  by (cases c) (auto simp: grad_forward_init_eq split: if_splits)

lemma forward_run_result:
  "grad_forward_current_id st \<le> N \<Longrightarrow>
   forward_run L N prog (st, env) =
     (if N < grad_forward_current_id st + length (filter is_FInit prog) then Inl CapacityViolation
      else Inr (st\<lparr>grad_forward_current_id :=
                     grad_forward_current_id st + length (filter is_FInit prog)\<rparr>,
                snd (projr (forward_run L N prog (st, env)))))"
proof (induction prog arbitrary: st env)
  case Nil
  then show ?case by simp
next
  case (Cons c prog)
  show ?case
  proof (cases "is_FInit c \<and> N \<le> grad_forward_current_id st")
    case True
    then show ?thesis by (subst forward_run.simps, subst forward_exec_result) simp
  next
    case False
    let ?st1 = "st\<lparr>grad_forward_current_id :=
                     grad_forward_current_id st + (if is_FInit c then 1 else 0)\<rparr>"
    let ?env1 = "snd (projr (forward_exec L N c (st, env)))"
    have ex: "forward_exec L N c (st, env) = Inr (?st1, ?env1)"
      using False by (subst forward_exec_result) simp
    have run: "forward_run L N (c # prog) (st, env) = forward_run L N prog (?st1, ?env1)"
      by (subst forward_run.simps, subst ex) simp
    have le: "grad_forward_current_id ?st1 \<le> N" using False Cons.prems by auto
    show ?thesis
      unfolding run by (subst Cons.IH[OF le]) (use False in \<open>auto\<close>)
  qed
qed

lemma forward_run_length:
  "forward_run L N prog (st, env) = Inr (st', env') \<Longrightarrow> length env' = length env + length prog"
proof (induction prog arbitrary: st env)
  case Nil
  then show ?case by simp
next
  case (Cons c prog)
  then show ?case
    by (fastforce split: sum.splits dest: forward_exec_length)
qed

lemma forward_run_append:
  "forward_run L N (xs @ ys) s =
     (case forward_run L N xs s of Inl e \<Rightarrow> Inl e | Inr s' \<Rightarrow> forward_run L N ys s')"
  by (induction xs arbitrary: s) (auto split: sum.splits)

lemma reverse_run_append:
  "reverse_run L (xs @ ys) s =
     (case reverse_run L xs s of Inl e \<Rightarrow> Inl e | Inr s' \<Rightarrow> reverse_run L ys s')"
  by (induction xs arbitrary: s) (auto split: sum.splits)

lemma reverse_exec_result:
  "reverse_exec L c (st, env) =
     (if length (grad_reverse_tape st) < grad_reverse_current_id st + rcmd_nodes c
      then Inl CapacityViolation
      else Inr (fst (projr (reverse_exec L c (st, env))), snd (projr (reverse_exec L c (st, env)))))"
  by (cases c)
    (auto simp: returned_def grad_reverse_init_eq grad_reverse_add_eq grad_reverse_mul_eq
      grad_reverse_unary_eq grad_reverse_sub_def grad_reverse_div_def has_room_def)

lemma reverse_exec_count:
  "reverse_exec L c (st, env) = Inr (st', env') \<Longrightarrow>
   grad_reverse_current_id st' = grad_reverse_current_id st + rcmd_nodes c \<and>
   length (grad_reverse_tape st') = length (grad_reverse_tape st)"
  by (cases c)
    (auto simp: returned_def grad_reverse_init_eq grad_reverse_add_eq grad_reverse_mul_eq
      grad_reverse_unary_eq grad_reverse_sub_def grad_reverse_div_def has_room_def
      split: if_splits)

lemma reverse_call_count:
  "reverse_call L c (st, env) = Inr (st', env') \<Longrightarrow>
   grad_reverse_current_id st' = grad_reverse_current_id st + rcall_nodes c \<and>
   length (grad_reverse_tape st') = length (grad_reverse_tape st)"
  by (cases c) (auto dest: reverse_exec_count simp: map_strip_length[OF grad_reverse_backward_strip])

lemma reverse_call_succeeds:
  "grad_reverse_current_id st \<le> length (grad_reverse_tape st) \<Longrightarrow>
   (\<exists>s'. reverse_call L c (st, env) = Inr s') =
     (grad_reverse_current_id st + rcall_nodes c \<le> length (grad_reverse_tape st))"
  by (cases c; simp) (subst reverse_exec_result, simp)

lemma error_is_capacity: "(e :: error) = CapacityViolation"
  by (cases e) simp

lemma reverse_run_count:
  "reverse_run L calls (st, env) = Inr (st', env') \<Longrightarrow>
   grad_reverse_current_id st' = grad_reverse_current_id st + sum_list (map rcall_nodes calls) \<and>
   length (grad_reverse_tape st') = length (grad_reverse_tape st)"
proof (induction calls arbitrary: st env)
  case Nil
  then show ?case by simp
next
  case (Cons c calls)
  from Cons.prems obtain st1 env1 where c: "reverse_call L c (st, env) = Inr (st1, env1)"
    and r: "reverse_run L calls (st1, env1) = Inr (st', env')"
    by (auto split: sum.splits)
  show ?case using reverse_call_count[OF c] Cons.IH[OF r] by simp
qed

lemma reverse_run_succeeds:
  "grad_reverse_current_id st \<le> length (grad_reverse_tape st) \<Longrightarrow>
   (\<exists>s'. reverse_run L calls (st, env) = Inr s') =
     (grad_reverse_current_id st + sum_list (map rcall_nodes calls) \<le> length (grad_reverse_tape st))"
proof (induction calls arbitrary: st env)
  case Nil
  then show ?case by simp
next
  case (Cons c calls)
  show ?case
  proof (cases "reverse_call L c (st, env)")
    case (Inl e)
    then have "\<not> (\<exists>s'. reverse_call L c (st, env) = Inr s')" by simp
    then have "\<not> grad_reverse_current_id st + rcall_nodes c \<le> length (grad_reverse_tape st)"
      using reverse_call_succeeds[OF Cons.prems, of L c env] by simp
    then have "\<not> grad_reverse_current_id st + sum_list (map rcall_nodes (c # calls))
                 \<le> length (grad_reverse_tape st)"
      by simp
    moreover have "\<not> (\<exists>s'. reverse_run L (c # calls) (st, env) = Inr s')"
      using Inl by simp
    ultimately show ?thesis by blast
  next
    case (Inr s1)
    obtain st1 env1 where s1: "s1 = (st1, env1)" by (cases s1)
    have run: "reverse_run L (c # calls) (st, env) = reverse_run L calls (st1, env1)"
      using Inr s1 by simp
    have cnt: "grad_reverse_current_id st1 = grad_reverse_current_id st + rcall_nodes c"
      "length (grad_reverse_tape st1) = length (grad_reverse_tape st)"
      using reverse_call_count[of L c st env st1 env1] Inr s1 by simp_all
    have "grad_reverse_current_id st + rcall_nodes c \<le> length (grad_reverse_tape st)"
      using reverse_call_succeeds[OF Cons.prems, of L c env] Inr by simp
    then have le: "grad_reverse_current_id st1 \<le> length (grad_reverse_tape st1)"
      using cnt by simp
    show ?thesis
      unfolding run using Cons.IH[OF le, of env1] cnt by (simp add: add.assoc)
  qed
qed

text \<open>
  C5: from a fresh scope, a client program that creates exactly the configured number
  of forward Variables (\<open>N\<close> calls of \<^verbatim>\<open>grad_forward_init\<close>, with any operations
  between them), resp. of reverse nodes (the tape length; \<open>sub\<close> and \<open>div\<close> count two),
  succeeds, and one more creation after it ends in the capacity violation.
\<close>

theorem capacity_boundary:
  assumes "length (filter is_FInit prog) = N" and "fcmds_ok 0 prog"
    and "sum_list (map rcall_nodes calls) = GRAD_REVERSE_TAPE_SIZE rst0"
    and "rcalls_ok 0 (calls @ [Build c])"
  shows "(\<exists>st env. forward_run L N prog (grad_forward_start_scope fst0, []) = Inr (st, env) \<and>
            grad_forward_current_id st = N) \<and>
         forward_run L N (prog @ [FInit v]) (grad_forward_start_scope fst0, []) = Inl CapacityViolation \<and>
         (\<exists>st env. reverse_run L calls (grad_reverse_start_scope rst0, []) = Inr (st, env) \<and>
            grad_reverse_current_id st = GRAD_REVERSE_TAPE_SIZE rst0) \<and>
         reverse_run L (calls @ [Build c]) (grad_reverse_start_scope rst0, []) = Inl CapacityViolation"
proof -
  let ?f0 = "grad_forward_start_scope fst0" and ?r0 = "grad_reverse_start_scope rst0"
  have f0: "grad_forward_current_id ?f0 \<le> N" "grad_forward_current_id ?f0 = 0"
    by (simp_all add: grad_forward_start_scope_def)
  have A: "\<exists>st env. forward_run L N prog (?f0, []) = Inr (st, env) \<and> grad_forward_current_id st = N"
    by (subst forward_run_result[OF f0(1)]) (simp add: f0(2) assms(1))
  have B: "forward_run L N (prog @ [FInit v]) (?f0, []) = Inl CapacityViolation"
    by (subst forward_run_result[OF f0(1)]) (simp add: f0(2) assms(1))
  have r0: "grad_reverse_current_id ?r0 \<le> length (grad_reverse_tape ?r0)"
    "grad_reverse_current_id ?r0 = 0" "length (grad_reverse_tape ?r0) = GRAD_REVERSE_TAPE_SIZE rst0"
    by (simp_all add: grad_reverse_start_scope_def GRAD_REVERSE_TAPE_SIZE_def)
  have "\<exists>s'. reverse_run L calls (?r0, []) = Inr s'"
    using reverse_run_succeeds[OF r0(1), of L calls "[]"] r0 assms(3) by simp
  then obtain st env where run: "reverse_run L calls (?r0, []) = Inr (st, env)" by auto
  have C: "\<exists>st env. reverse_run L calls (?r0, []) = Inr (st, env) \<and>
            grad_reverse_current_id st = GRAD_REVERSE_TAPE_SIZE rst0"
    using run reverse_run_count[OF run] r0 assms(3) by simp
  have "0 < rcmd_nodes c" by (cases c) simp_all
  then have "\<not> (\<exists>s'. reverse_run L (calls @ [Build c]) (?r0, []) = Inr s')"
    using reverse_run_succeeds[OF r0(1), of L "calls @ [Build c]" "[]"] r0 assms(3) by simp
  then have D: "reverse_run L (calls @ [Build c]) (?r0, []) = Inl CapacityViolation"
    by (cases "reverse_run L (calls @ [Build c]) (?r0, [])") (simp_all add: error_is_capacity)
  from A B C D show ?thesis by blast
qed

theorem capacity_boundary_witness:
  "length (filter is_FInit [FInit (Finite False 1), FInit (Finite False 2), FMul 0 1]) = 2 \<and> fcmds_ok 0 [FInit (Finite False 1), FInit (Finite False 2), FMul 0 1] \<and>
   sum_list (map rcall_nodes [Build (RInit (Finite False 1)), Build (RSub 0 0)]) = GRAD_REVERSE_TAPE_SIZE (reverse_state0 3 :: float32 reverse_state) \<and>
   rcalls_ok 0 ([Build (RInit (Finite False 1)), Build (RSub 0 0)] @ [Build (RNeg 1)]) \<and>
   (\<exists>st env. forward_run libm32 2 [FInit (Finite False 1), FInit (Finite False 2), FMul 0 1] (grad_forward_start_scope forward_state0, []) = Inr (st, env) \<and>
      grad_forward_current_id st = 2) \<and>
   forward_run libm32 2 ([FInit (Finite False 1), FInit (Finite False 2), FMul 0 1] @ [FInit (Finite False 7)]) (grad_forward_start_scope forward_state0, []) =
     Inl CapacityViolation \<and>
   (\<exists>st env. reverse_run libm32 [Build (RInit (Finite False 1)), Build (RSub 0 0)] (grad_reverse_start_scope (reverse_state0 3), []) = Inr (st, env) \<and>
      grad_reverse_current_id st = GRAD_REVERSE_TAPE_SIZE (reverse_state0 3 :: float32 reverse_state)) \<and>
   reverse_run libm32 ([Build (RInit (Finite False 1)), Build (RSub 0 0)] @ [Build (RNeg 1)]) (grad_reverse_start_scope (reverse_state0 3), []) =
     Inl CapacityViolation"
proof -
  have 1: "length (filter is_FInit [FInit (Finite False 1), FInit (Finite False 2), FMul 0 1]) = 2" by simp
  have 2: "fcmds_ok 0 [FInit (Finite False 1), FInit (Finite False 2), FMul 0 1]" by simp
  have 3: "sum_list (map rcall_nodes [Build (RInit (Finite False 1)), Build (RSub 0 0)]) = GRAD_REVERSE_TAPE_SIZE (reverse_state0 3 :: float32 reverse_state)"
    by (simp add: GRAD_REVERSE_TAPE_SIZE_def reverse_state0_def)
  have 4: "rcalls_ok 0 ([Build (RInit (Finite False 1)), Build (RSub 0 0)] @ [Build (RNeg 1)])" by simp
  show ?thesis
    using capacity_boundary[OF 1 2 3 4, of libm32 forward_state0 "Finite False 7"] 1 2 3 4 by blast
qed

text \<open>
  C9: a forward-mode elementary operation returns its result without changing the
  slot counter or any Variable the client holds, and it never fails; only
  \<^verbatim>\<open>grad_forward_init\<close> consumes a slot, so a program run from a fresh scope succeeds
  exactly when it calls \<^verbatim>\<open>grad_forward_init\<close> at most \<open>N\<close> times, however many
  operations it has.
\<close>

lemma forward_operations_run:
  "list_all (\<lambda>c. \<not> is_FInit c) cs \<Longrightarrow>
   \<exists>xs. forward_run L N cs (st, env) = Inr (st, env @ xs) \<and> length xs = length cs"
proof (induction cs arbitrary: env)
  case Nil
  show ?case by simp
next
  case (Cons c cs)
  from Cons.prems obtain x where x: "forward_exec L N c (st, env) = Inr (st, env @ [x])"
    using forward_exec_op[of c L N st env] by auto
  from Cons.prems Cons.IH[of "env @ [x]"] obtain xs where
    xs: "forward_run L N cs (st, env @ [x]) = Inr (st, (env @ [x]) @ xs)" "length xs = length cs"
    by auto
  have "forward_run L N (c # cs) (st, env) = Inr (st, env @ (x # xs))"
    using x xs by simp
  then show ?case
    using xs(2) by (intro exI[of _ "x # xs"]) simp
qed

theorem forward_operations_frame:
  "(list_all (\<lambda>c. \<not> is_FInit c) cs \<and> fcmds_ok (length env) cs \<longrightarrow>
      (\<exists>xs. forward_run L N cs (st, env) = Inr (st, env @ xs) \<and> length xs = length cs)) \<and>
   (fcmds_ok 0 prog \<longrightarrow>
      (\<exists>s'. forward_run L N prog (grad_forward_start_scope st0, []) = Inr s') =
      (length (filter is_FInit prog) \<le> N))"
proof -
  have f0: "grad_forward_current_id (grad_forward_start_scope st0) \<le> N"
    by (simp add: grad_forward_start_scope_def)
  have "(\<exists>s'. forward_run L N prog (grad_forward_start_scope st0, []) = Inr s') =
      (length (filter is_FInit prog) \<le> N)"
    by (subst forward_run_result[OF f0]) (auto simp: grad_forward_start_scope_def)
  then show ?thesis
    using forward_operations_run[of cs L N st env] by blast
qed

theorem forward_operations_frame_witness:
  "list_all (\<lambda>c. \<not> is_FInit c) [FMul 0 0, FSin 1, FDiv 2 0] \<and>
   fcmds_ok (length [\<lparr>slot_id = 0, grad_forward_t.value = Finite False 3, grad_forward_t.derivative = [1]\<rparr>])
     [FMul 0 0, FSin 1, FDiv 2 0] \<and>
   fcmds_ok 0 [FInit (Finite False 3), FMul 0 0] \<and>
   (\<exists>s'. forward_run libm32 1 [FInit (Finite False 3), FMul 0 0] (grad_forward_start_scope forward_state0, []) = Inr s') \<and>
   (\<exists>xs. forward_run libm32 1 [FMul 0 0, FSin 1, FDiv 2 0]
      (\<lparr>grad_forward_current_id = 1\<rparr>,
       [\<lparr>slot_id = 0, grad_forward_t.value = Finite False 3, grad_forward_t.derivative = [1]\<rparr>]) =
      Inr (\<lparr>grad_forward_current_id = 1\<rparr>,
           [\<lparr>slot_id = 0, grad_forward_t.value = Finite False 3, grad_forward_t.derivative = [1]\<rparr>] @ xs) \<and>
      length xs = 3)"
proof -
  have h: "list_all (\<lambda>c. \<not> is_FInit c) [FMul 0 0, FSin 1, FDiv 2 0]" by simp
  show ?thesis
    using forward_operations_frame[of "[FMul 0 0, FSin 1, FDiv 2 0]"
        "[\<lparr>slot_id = 0, grad_forward_t.value = Finite False 3, grad_forward_t.derivative = [1]\<rparr>]"
        libm32 1 "\<lparr>grad_forward_current_id = 1\<rparr>" "[FInit (Finite False 3), FMul 0 0]" forward_state0] h
    by simp
qed

section \<open>Reverse mode: subtraction and division\<close>

lemma grad_reverse_sub_eq:
  "grad_reverse_sub st l r =
     (if grad_reverse_current_id st + 2 \<le> length (grad_reverse_tape st)
      then Inr (grad_reverse_current_id st + 1,
             push_node (push_node st (unary_node GRAD_OP_NEG (- node_value st r) r))
               (\<lambda>n. n\<lparr>value := node_value (push_node st (unary_node GRAD_OP_NEG (- node_value st r) r)) l +
                               node_value (push_node st (unary_node GRAD_OP_NEG (- node_value st r) r))
                                 (grad_reverse_current_id st),
                      derivative := 0, operation := GRAD_OP_ADD, left := l,
                      right := grad_reverse_current_id st\<rparr>))
      else Inl CapacityViolation)"
  by (auto simp: grad_reverse_sub_def grad_reverse_unary_eq grad_reverse_add_eq has_room_def)

lemma grad_reverse_div_eq:
  "grad_reverse_div st l r =
     (if grad_reverse_current_id st + 2 \<le> length (grad_reverse_tape st)
      then Inr (grad_reverse_current_id st + 1,
             push_node (push_node st (unary_node GRAD_OP_INV (1 / node_value st r) r))
               (\<lambda>n. n\<lparr>value := node_value (push_node st (unary_node GRAD_OP_INV (1 / node_value st r) r)) l *
                               node_value (push_node st (unary_node GRAD_OP_INV (1 / node_value st r) r))
                                 (grad_reverse_current_id st),
                      derivative := 0, operation := GRAD_OP_MUL, left := l,
                      right := grad_reverse_current_id st\<rparr>))
      else Inl CapacityViolation)"
  by (auto simp: grad_reverse_div_def grad_reverse_unary_eq grad_reverse_mul_eq has_room_def)

lemma push_push_nth:
  assumes "grad_reverse_current_id st + 2 \<le> length (grad_reverse_tape st)"
  shows "grad_reverse_tape (push_node (push_node st f) g) ! i =
     (if i = grad_reverse_current_id st then f (grad_reverse_tape st ! i)
      else if i = grad_reverse_current_id st + 1 then g (grad_reverse_tape st ! i)
      else grad_reverse_tape st ! i)"
  using assms by (simp add: push_node_nth has_room_def)

text \<open>
  C10: a successful call of \<^verbatim>\<open>grad_reverse_sub\<close> (\<^verbatim>\<open>grad_reverse_div\<close>) appends exactly two
  nodes: at the old counter the \<open>NEG\<close> (\<open>INV\<close>) node of the right operand, after it the
  \<open>ADD\<close> (\<open>MUL\<close>) node of the left operand and that node, which is the node returned;
  the counter grows by two, no other node changes, and the call succeeds exactly when
  two slots are free.
\<close>

theorem sub_div_append_two_nodes:
  "(grad_reverse_sub st l r = Inr (p, st') \<longrightarrow>
      grad_reverse_current_id st' = grad_reverse_current_id st + 2 \<and>
      p = grad_reverse_current_id st + 1 \<and>
      operation (grad_reverse_tape st' ! grad_reverse_current_id st) = GRAD_OP_NEG \<and>
      left (grad_reverse_tape st' ! grad_reverse_current_id st) = r \<and>
      value (grad_reverse_tape st' ! grad_reverse_current_id st) = - node_value st r \<and>
      operation (grad_reverse_tape st' ! p) = GRAD_OP_ADD \<and>
      left (grad_reverse_tape st' ! p) = l \<and>
      right (grad_reverse_tape st' ! p) = grad_reverse_current_id st \<and>
      length (grad_reverse_tape st') = length (grad_reverse_tape st) \<and>
      (\<forall>i. i \<noteq> grad_reverse_current_id st \<and> i \<noteq> p \<longrightarrow>
           grad_reverse_tape st' ! i = grad_reverse_tape st ! i)) \<and>
   (grad_reverse_div st l r = Inr (q, st'') \<longrightarrow>
      grad_reverse_current_id st'' = grad_reverse_current_id st + 2 \<and>
      q = grad_reverse_current_id st + 1 \<and>
      operation (grad_reverse_tape st'' ! grad_reverse_current_id st) = GRAD_OP_INV \<and>
      left (grad_reverse_tape st'' ! grad_reverse_current_id st) = r \<and>
      value (grad_reverse_tape st'' ! grad_reverse_current_id st) = 1 / node_value st r \<and>
      operation (grad_reverse_tape st'' ! q) = GRAD_OP_MUL \<and>
      left (grad_reverse_tape st'' ! q) = l \<and>
      right (grad_reverse_tape st'' ! q) = grad_reverse_current_id st \<and>
      length (grad_reverse_tape st'') = length (grad_reverse_tape st) \<and>
      (\<forall>i. i \<noteq> grad_reverse_current_id st \<and> i \<noteq> q \<longrightarrow>
           grad_reverse_tape st'' ! i = grad_reverse_tape st ! i)) \<and>
   ((\<exists>res. grad_reverse_sub st l r = Inr res) =
      (grad_reverse_current_id st + 2 \<le> GRAD_REVERSE_TAPE_SIZE st)) \<and>
   ((\<exists>res. grad_reverse_div st l r = Inr res) =
      (grad_reverse_current_id st + 2 \<le> GRAD_REVERSE_TAPE_SIZE st))"
proof (intro conjI impI)
  assume a: "grad_reverse_sub st l r = Inr (p, st')"
  then have room: "grad_reverse_current_id st + 2 \<le> length (grad_reverse_tape st)"
    by (simp add: grad_reverse_sub_eq split: if_splits)
  note nth = push_push_nth[OF room]
  from a room show "grad_reverse_current_id st' = grad_reverse_current_id st + 2"
    "p = grad_reverse_current_id st + 1"
    "length (grad_reverse_tape st') = length (grad_reverse_tape st)"
    by (auto simp: grad_reverse_sub_eq)
  from a room show "operation (grad_reverse_tape st' ! grad_reverse_current_id st) = GRAD_OP_NEG"
    "left (grad_reverse_tape st' ! grad_reverse_current_id st) = r"
    "value (grad_reverse_tape st' ! grad_reverse_current_id st) = - node_value st r"
    "operation (grad_reverse_tape st' ! p) = GRAD_OP_ADD"
    "left (grad_reverse_tape st' ! p) = l"
    "right (grad_reverse_tape st' ! p) = grad_reverse_current_id st"
    "\<forall>i. i \<noteq> grad_reverse_current_id st \<and> i \<noteq> p \<longrightarrow>
           grad_reverse_tape st' ! i = grad_reverse_tape st ! i"
    by (auto simp: grad_reverse_sub_eq nth unary_node_def)
next
  assume a: "grad_reverse_div st l r = Inr (q, st'')"
  then have room: "grad_reverse_current_id st + 2 \<le> length (grad_reverse_tape st)"
    by (simp add: grad_reverse_div_eq split: if_splits)
  note nth = push_push_nth[OF room]
  from a room show "grad_reverse_current_id st'' = grad_reverse_current_id st + 2"
    "q = grad_reverse_current_id st + 1"
    "length (grad_reverse_tape st'') = length (grad_reverse_tape st)"
    by (auto simp: grad_reverse_div_eq)
  from a room show "operation (grad_reverse_tape st'' ! grad_reverse_current_id st) = GRAD_OP_INV"
    "left (grad_reverse_tape st'' ! grad_reverse_current_id st) = r"
    "value (grad_reverse_tape st'' ! grad_reverse_current_id st) = 1 / node_value st r"
    "operation (grad_reverse_tape st'' ! q) = GRAD_OP_MUL"
    "left (grad_reverse_tape st'' ! q) = l"
    "right (grad_reverse_tape st'' ! q) = grad_reverse_current_id st"
    "\<forall>i. i \<noteq> grad_reverse_current_id st \<and> i \<noteq> q \<longrightarrow>
           grad_reverse_tape st'' ! i = grad_reverse_tape st ! i"
    by (auto simp: grad_reverse_div_eq nth unary_node_def)
next
  show "(\<exists>res. grad_reverse_sub st l r = Inr res) =
      (grad_reverse_current_id st + 2 \<le> GRAD_REVERSE_TAPE_SIZE st)"
    by (simp add: grad_reverse_sub_eq GRAD_REVERSE_TAPE_SIZE_def)
  show "(\<exists>res. grad_reverse_div st l r = Inr res) =
      (grad_reverse_current_id st + 2 \<le> GRAD_REVERSE_TAPE_SIZE st)"
    by (simp add: grad_reverse_div_eq GRAD_REVERSE_TAPE_SIZE_def)
qed


theorem sub_div_append_two_nodes_witness:
  "\<exists>p st' q st''.
     grad_reverse_sub (snd (projr (grad_reverse_init (reverse_state0 4) (Finite False 5)))) 0 0 = Inr (p, st') \<and>
     grad_reverse_div (snd (projr (grad_reverse_init (reverse_state0 4) (Finite False 5)))) 0 0 = Inr (q, st'') \<and>
     grad_reverse_current_id st' = 3 \<and> p = 2 \<and>
     operation (grad_reverse_tape st' ! 1) = GRAD_OP_NEG \<and>
     operation (grad_reverse_tape st' ! 2) = GRAD_OP_ADD \<and>
     grad_reverse_current_id st'' = 3 \<and> q = 2 \<and>
     operation (grad_reverse_tape st'' ! 1) = GRAD_OP_INV \<and>
     operation (grad_reverse_tape st'' ! 2) = GRAD_OP_MUL"
proof -
  let ?S = "snd (projr (grad_reverse_init (reverse_state0 4) (Finite False 5)))"
  have c: "grad_reverse_current_id ?S = 1" "GRAD_REVERSE_TAPE_SIZE ?S = 4"
    by (simp_all add: grad_reverse_init_eq has_room_def reverse_state0_def GRAD_REVERSE_TAPE_SIZE_def)
  have "(\<exists>res. grad_reverse_sub ?S 0 0 = Inr res) =
          (grad_reverse_current_id ?S + 2 \<le> GRAD_REVERSE_TAPE_SIZE ?S)"
    and "(\<exists>res. grad_reverse_div ?S 0 0 = Inr res) =
          (grad_reverse_current_id ?S + 2 \<le> GRAD_REVERSE_TAPE_SIZE ?S)"
    using sub_div_append_two_nodes[of ?S 0 0 0 ?S 0 ?S] by blast+
  then obtain rs rd where "grad_reverse_sub ?S 0 0 = Inr rs" "grad_reverse_div ?S 0 0 = Inr rd"
    unfolding c by auto
  then obtain p st' q st'' where s: "grad_reverse_sub ?S 0 0 = Inr (p, st')"
    and d: "grad_reverse_div ?S 0 0 = Inr (q, st'')"
    by (cases rs, cases rd) auto
  have P: "grad_reverse_current_id st' = grad_reverse_current_id ?S + 2 \<and>
      p = grad_reverse_current_id ?S + 1 \<and>
      operation (grad_reverse_tape st' ! grad_reverse_current_id ?S) = GRAD_OP_NEG \<and>
      operation (grad_reverse_tape st' ! p) = GRAD_OP_ADD"
    using sub_div_append_two_nodes[of ?S 0 0 p st' q st''] s by blast
  have Q: "grad_reverse_current_id st'' = grad_reverse_current_id ?S + 2 \<and>
      q = grad_reverse_current_id ?S + 1 \<and>
      operation (grad_reverse_tape st'' ! grad_reverse_current_id ?S) = GRAD_OP_INV \<and>
      operation (grad_reverse_tape st'' ! q) = GRAD_OP_MUL"
    using sub_div_append_two_nodes[of ?S 0 0 p st' q st''] d by blast
  have n: "(1::nat) + 2 = 3" "(1::nat) + 1 = 2" by simp_all
  from P Q have "grad_reverse_current_id st' = 3 \<and> p = 2 \<and>
     operation (grad_reverse_tape st' ! 1) = GRAD_OP_NEG \<and>
     operation (grad_reverse_tape st' ! 2) = GRAD_OP_ADD \<and>
     grad_reverse_current_id st'' = 3 \<and> q = 2 \<and>
     operation (grad_reverse_tape st'' ! 1) = GRAD_OP_INV \<and>
     operation (grad_reverse_tape st'' ! 2) = GRAD_OP_MUL"
    unfolding c n by auto
  with s d show ?thesis by blast
qed

section \<open>Reverse mode: the chain rule of the backward pass\<close>

text \<open>
  The adjoint of node \<open>k\<close> after the visit of node \<open>j\<close>, from the adjoint \<open>d\<close> of \<open>j\<close> and
  the adjoint \<open>a\<close> of \<open>k\<close> before the visit: for each operand of \<open>j\<close> that is \<open>k\<close>, the
  partial derivative of the operation of \<open>j\<close> with respect to this operand, times \<open>d\<close>,
  is added to \<open>a\<close>.
\<close>

definition absorb ::
  "('a::{zero,one,plus,minus,uminus,times,inverse}) libm \<Rightarrow> 'a grad_reverse_t list \<Rightarrow> nat \<Rightarrow> 'a \<Rightarrow> nat \<Rightarrow> 'a \<Rightarrow> 'a" where
  "absorb L tape j d k a =
     (let n = tape ! j; v = value (tape ! left n) in
      case operation n of
        GRAD_OP_NONE \<Rightarrow> a
      | GRAD_OP_ADD \<Rightarrow>
          (let a = (if left n = k then a + d else a)
           in if right n = k then a + d else a)
      | GRAD_OP_MUL \<Rightarrow>
          (let a = (if left n = k then a + value (tape ! right n) * d else a)
           in if right n = k then a + v * d else a)
      | GRAD_OP_NEG \<Rightarrow> (if left n = k then a + - 1 * d else a)
      | GRAD_OP_INV \<Rightarrow> (if left n = k then a + - d / (v * v) else a)
      | GRAD_OP_SIN \<Rightarrow> (if left n = k then a + GRAD_COS L v * d else a)
      | GRAD_OP_COS \<Rightarrow> (if left n = k then a + - GRAD_SIN L v * d else a)
      | GRAD_OP_EXP \<Rightarrow> (if left n = k then a + GRAD_EXP L v * d else a)
      | GRAD_OP_LOG \<Rightarrow> (if left n = k then a + d / v else a))"

text \<open>
  The chain rule at node \<open>k\<close> of a tape of \<open>n\<close> live nodes, for the adjoints \<open>adj\<close>: from
  1 at the output and 0 elsewhere, the terms of the nodes after \<open>k\<close> are added one
  after the other, the node with the highest index first.
\<close>

definition chain_rule_sum ::
  "('a::{zero,one,plus,minus,uminus,times,inverse}) libm \<Rightarrow> 'a grad_reverse_t list \<Rightarrow> nat \<Rightarrow> nat \<Rightarrow> (nat \<Rightarrow> 'a) \<Rightarrow> nat \<Rightarrow> 'a" where
  "chain_rule_sum L tape out n adj k =
     fold (\<lambda>j a. absorb L tape j (adj j) k a) (rev [Suc k..<n]) (if k = out then 1 else 0)"

definition graph_wf :: "'a grad_reverse_t list \<Rightarrow> nat \<Rightarrow> bool" where
  "graph_wf tape n =
     (n \<le> length tape \<and> (\<forall>i<n. \<forall>p \<in> set (operand_refs (tape ! i)). p < i))"

lemma tape_wf_graph_wf:
  "tape_wf L st \<Longrightarrow> graph_wf (grad_reverse_tape st) (grad_reverse_current_id st)"
  by (simp add: tape_wf_def graph_wf_def node_wf_def list_all_iff)

lemma graph_wf_refs:
  "graph_wf tape n \<Longrightarrow> i < n \<Longrightarrow> p \<in> set (operand_refs (tape ! i)) \<Longrightarrow> p < i"
  by (simp add: graph_wf_def)

lemma add_derivative_nth:
  "j < length tape \<Longrightarrow>
   add_derivative p x tape ! j =
     (if j = p then (tape ! j)\<lparr>derivative := derivative (tape ! j) + x\<rparr> else tape ! j)"
  by (simp add: add_derivative_def nth_list_update)

lemma backward_node_absorb:
  assumes refs: "\<forall>p \<in> set (operand_refs (tape ! m)). p < m"
    and m: "m < length tape" and k: "k < length tape"
  shows "derivative (backward_node L m tape ! k) =
         absorb L tape m (derivative (tape ! m)) k (derivative (tape ! k))"
proof (cases "operation (tape ! m)")
  case GRAD_OP_NONE
  then show ?thesis by (simp add: backward_node_def absorb_def)
next
  case GRAD_OP_ADD
  then have "left (tape ! m) < m" "right (tape ! m) < m"
    using refs by (simp_all add: operand_refs_def)
  then show ?thesis
    using GRAD_OP_ADD m k
    by (simp add: backward_node_def absorb_def Let_def add_derivative_nth)
next
  case GRAD_OP_MUL
  then have "left (tape ! m) < m" "right (tape ! m) < m"
    using refs by (simp_all add: operand_refs_def)
  then show ?thesis
    using GRAD_OP_MUL m k
    by (simp add: backward_node_def absorb_def Let_def add_derivative_nth)
next
  case GRAD_OP_NEG
  then have "left (tape ! m) < m" using refs by (simp add: operand_refs_def)
  then show ?thesis
    using GRAD_OP_NEG m k
    by (simp add: backward_node_def absorb_def Let_def add_derivative_nth)
next
  case GRAD_OP_INV
  then have "left (tape ! m) < m" using refs by (simp add: operand_refs_def)
  then show ?thesis
    using GRAD_OP_INV m k
    by (simp add: backward_node_def absorb_def Let_def add_derivative_nth)
next
  case GRAD_OP_SIN
  then have "left (tape ! m) < m" using refs by (simp add: operand_refs_def)
  then show ?thesis
    using GRAD_OP_SIN m k
    by (simp add: backward_node_def absorb_def Let_def add_derivative_nth)
next
  case GRAD_OP_COS
  then have "left (tape ! m) < m" using refs by (simp add: operand_refs_def)
  then show ?thesis
    using GRAD_OP_COS m k
    by (simp add: backward_node_def absorb_def Let_def add_derivative_nth)
next
  case GRAD_OP_EXP
  then have "left (tape ! m) < m" using refs by (simp add: operand_refs_def)
  then show ?thesis
    using GRAD_OP_EXP m k
    by (simp add: backward_node_def absorb_def Let_def add_derivative_nth)
next
  case GRAD_OP_LOG
  then have "left (tape ! m) < m" using refs by (simp add: operand_refs_def)
  then show ?thesis
    using GRAD_OP_LOG m k
    by (simp add: backward_node_def absorb_def Let_def add_derivative_nth)
qed

text \<open>A node leaves the adjoints of the nodes from itself on as they are.\<close>

lemma absorb_beyond:
  "\<forall>p \<in> set (operand_refs (tape ! m)). p < m \<Longrightarrow> m \<le> k \<Longrightarrow> absorb L tape m d k a = a"
  by (auto simp: absorb_def operand_refs_def Let_def split: grad_reverse_op_t.splits)

text \<open>The terms depend on the tape through the fields that the backward pass does not write.\<close>

lemma absorb_strip:
  assumes "map strip tape' = map strip tape" and "m < length tape"
    and "\<forall>p \<in> set (operand_refs (tape ! m)). p < length tape"
  shows "absorb L tape' m d k a = absorb L tape m d k a"
proof -
  have f: "value (tape' ! i) = value (tape ! i)" "operation (tape' ! i) = operation (tape ! i)"
    "left (tape' ! i) = left (tape ! i)" "right (tape' ! i) = right (tape ! i)"
    if "i < length tape" for i
    using strip_fields[OF strip_nth[OF assms(1) that]] by simp_all
  show ?thesis
    using f[OF assms(2)] f assms(3)
    by (cases "operation (tape ! m)") (simp_all add: absorb_def operand_refs_def Let_def)
qed


lemma strip_operand_refs: "strip a = strip b \<Longrightarrow> operand_refs a = operand_refs b"
  using strip_fields[of a b] by (simp add: operand_refs_def split: grad_reverse_op_t.splits)

lemma fold_nth_update_upt:
  "n \<le> length xs \<Longrightarrow> j < length xs \<Longrightarrow>
   fold (\<lambda>i t. t[i := g (t ! i)]) [0..<n] xs ! j = (if j < n then g (xs ! j) else xs ! j)"
proof (induction n)
  case 0
  then show ?case by simp
next
  case (Suc n)
  have len: "length (fold (\<lambda>i t. t[i := g (t ! i)]) [0..<n] xs) = length xs"
    by (induction n) simp_all
  show ?case using Suc len by (auto simp: nth_list_update less_Suc_eq)
qed

lemma zero_derivatives_nth:
  "n \<le> length tape \<Longrightarrow> j < length tape \<Longrightarrow>
   derivative (zero_derivatives n tape ! j) = (if j < n then 0 else derivative (tape ! j))"
  by (simp add: zero_derivatives_def fold_nth_update_upt)

lemma zero_derivatives_length [simp]: "length (zero_derivatives n tape) = length tape"
  using map_strip_length[OF zero_derivatives_strip] .

text \<open>
  The invariant of the second loop of \<^verbatim>\<open>grad_reverse_backward\<close>: when the nodes from
  \<open>i\<close> on have been visited, the adjoint of a node holds the terms of the nodes visited
  that come after it.
\<close>

definition partial_sums ::
  "('a::{zero,one,plus,minus,uminus,times,inverse}) libm \<Rightarrow> 'a grad_reverse_t list \<Rightarrow> nat \<Rightarrow> nat \<Rightarrow> nat \<Rightarrow> 'a grad_reverse_t list \<Rightarrow> bool" where
  "partial_sums L T out n i S =
     (\<forall>k<n. derivative (S ! k) =
        fold (\<lambda>j a. absorb L T j (derivative (S ! j)) k a) (rev [max i (Suc k)..<n])
          (if k = out then 1 else 0))"

lemma partial_sums_step:
  assumes wf: "graph_wf T n" and st: "map strip S = map strip T" and i: "i < n"
    and H: "partial_sums L T out n (Suc i) S"
  shows "partial_sums L T out n i (backward_node L i S)"
proof -
  let ?S' = "backward_node L i S"
  let ?f = "\<lambda>X k j a. absorb L T j (derivative (X ! j)) k a"
  let ?s = "\<lambda>k. if k = out then 1 else (0::'a)"
  have n: "n \<le> length T" using wf by (simp add: graph_wf_def)
  have len: "length S = length T" using map_strip_length[OF st] .
  have refsT: "\<forall>p \<in> set (operand_refs (T ! i)). p < i" using graph_wf_refs[OF wf i] by blast
  have "operand_refs (S ! i) = operand_refs (T ! i)"
    using strip_operand_refs[OF strip_nth[OF st]] i n by simp
  then have refsS: "\<forall>p \<in> set (operand_refs (S ! i)). p < i" using refsT by simp
  have D: "derivative (?S' ! k) = absorb L T i (derivative (S ! i)) k (derivative (S ! k))"
    if "k < n" for k
  proof -
    have "derivative (?S' ! k) = absorb L S i (derivative (S ! i)) k (derivative (S ! k))"
      using backward_node_absorb[OF refsS, of k L] that i n len by simp
    also have "\<dots> = absorb L T i (derivative (S ! i)) k (derivative (S ! k))"
      using absorb_strip[OF st, of i L] refsT i n by fastforce
    finally show ?thesis .
  qed
  have E: "derivative (?S' ! j) = derivative (S ! j)" if "i \<le> j" "j < n" for j
    using D[OF that(2)] absorb_beyond[OF refsT that(1)] by simp
  have "derivative (?S' ! k) = fold (?f ?S' k) (rev [max i (Suc k)..<n]) (?s k)" if k: "k < n" for k
  proof (cases "k < i")
    case True
    have old: "derivative (S ! k) = fold (?f S k) (rev [Suc i..<n]) (?s k)"
      using H k True by (simp add: partial_sums_def max_def)
    have same: "fold (?f ?S' k) (rev [Suc i..<n]) (?s k) = fold (?f S k) (rev [Suc i..<n]) (?s k)"
      by (rule fold_cong) (use E in auto)
    have "max i (Suc k) = i" using True by simp
    then have "rev [max i (Suc k)..<n] = rev [Suc i..<n] @ [i]"
      using i by (simp add: upt_conv_Cons)
    then have "fold (?f ?S' k) (rev [max i (Suc k)..<n]) (?s k) =
               ?f ?S' k i (fold (?f ?S' k) (rev [Suc i..<n]) (?s k))"
      by simp
    also have "\<dots> = absorb L T i (derivative (S ! i)) k (derivative (S ! k))"
      using same old E[of i] i by simp
    finally show ?thesis using D[OF k] by simp
  next
    case False
    then have m: "max i (Suc k) = Suc k" "max (Suc i) (Suc k) = Suc k" by simp_all
    have "fold (?f ?S' k) (rev [Suc k..<n]) (?s k) = fold (?f S k) (rev [Suc k..<n]) (?s k)"
      by (rule fold_cong) (use E False in auto)
    then show ?thesis
      using H k E[of k] False by (simp add: partial_sums_def m)
  qed
  then show ?thesis by (simp add: partial_sums_def)
qed

lemma partial_sums_loop:
  "graph_wf T n \<Longrightarrow> map strip S = map strip T \<Longrightarrow> i \<le> n \<Longrightarrow>
   partial_sums L T out n i S \<Longrightarrow> partial_sums L T out n 0 (backward_loop L i S)"
proof (induction i arbitrary: S)
  case 0
  then show ?case by simp
next
  case (Suc i)
  have "partial_sums L T out n i (backward_node L i S)"
    using partial_sums_step[OF Suc.prems(1,2) _ Suc.prems(4)] Suc.prems(3) by simp
  moreover have "map strip (backward_node L i S) = map strip T"
    using Suc.prems(2) by simp
  ultimately show ?case
    using Suc.IH[of "backward_node L i S"] Suc.prems(1,3) by simp
qed

lemma backward_chain_rule:
  assumes wf: "graph_wf (grad_reverse_tape st) (grad_reverse_current_id st)"
    and out: "out < grad_reverse_current_id st" and k: "k < grad_reverse_current_id st"
  shows "derivative (grad_reverse_tape (grad_reverse_backward L st out) ! k) =
         chain_rule_sum L (grad_reverse_tape st) out (grad_reverse_current_id st)
           (\<lambda>j. derivative (grad_reverse_tape (grad_reverse_backward L st out) ! j)) k"
proof -
  let ?T = "grad_reverse_tape st" and ?n = "grad_reverse_current_id st"
  let ?z = "zero_derivatives ?n ?T"
  let ?s = "?z[out := (?z ! out)\<lparr>derivative := 1\<rparr>]"
  have n: "?n \<le> length ?T" using wf by (simp add: graph_wf_def)
  have eq: "map strip ?s = map strip ?T"
    using set_derivative_strip[of ?z out 1] by simp
  have "derivative (?s ! j) = (if j = out then 1 else 0)" if "j < ?n" for j
    using that n out by (simp add: nth_list_update zero_derivatives_nth)
  then have "partial_sums L ?T out ?n ?n ?s"
    by (simp add: partial_sums_def)
  then have "partial_sums L ?T out ?n 0 (backward_loop L ?n ?s)"
    using partial_sums_loop[OF wf eq] by simp
  moreover have "grad_reverse_tape (grad_reverse_backward L st out) = backward_loop L ?n ?s"
    by (simp add: grad_reverse_backward_def Let_def)
  ultimately show ?thesis
    using k by (simp add: partial_sums_def chain_rule_sum_def)
qed

text \<open>The chain rule determines the adjoints: two solutions on tapes of the same shape agree.\<close>

definition shape :: "'a grad_reverse_t \<Rightarrow> 'a \<times> grad_reverse_op_t \<times> nat list" where
  "shape n = (value n, operation n, operand_refs n)"

lemma absorb_shape:
  assumes n: "shape (T' ! j) = shape (T ! j)"
    and v: "\<forall>p \<in> set (operand_refs (T ! j)). value (T' ! p) = value (T ! p)"
  shows "absorb L T' j d k a = absorb L T j d k a"
proof -
  have op: "operation (T' ! j) = operation (T ! j)"
    and refs: "operand_refs (T' ! j) = operand_refs (T ! j)"
    using n by (simp_all add: shape_def)
  show ?thesis
    using op refs v
    by (cases "operation (T ! j)") (auto simp: absorb_def operand_refs_def Let_def)
qed

lemma chain_rule_unique:
  assumes wf: "graph_wf T n"
    and sh: "\<forall>i<n. shape (T' ! i) = shape (T ! i)"
    and a: "\<forall>k<n. A k = chain_rule_sum L T out n A k"
    and b: "\<forall>k<n. B k = chain_rule_sum L T' out n B k"
  shows "k < n \<Longrightarrow> A k = B k"
proof (induction "n - k" arbitrary: k rule: less_induct)
  case less
  have same: "absorb L T' j (B j) k x = absorb L T j (A j) k x"
    if j: "j \<in> set (rev [Suc k..<n])" for j x
  proof -
    from j have jk: "k < j" "j < n" by simp_all
    have AB: "A j = B j" using less.hyps[of j] jk less.prems by simp
    have "\<forall>p \<in> set (operand_refs (T ! j)). value (T' ! p) = value (T ! p)"
    proof
      fix p assume "p \<in> set (operand_refs (T ! j))"
      then have "p < n" using graph_wf_refs[OF wf jk(2)] jk(2) by fastforce
      then show "value (T' ! p) = value (T ! p)" using sh by (auto simp: shape_def)
    qed
    then show ?thesis
      using absorb_shape[of T' j T L] sh jk(2) AB by simp
  qed
  have "B k = chain_rule_sum L T' out n B k" using b less.prems by simp
  also have "\<dots> = chain_rule_sum L T out n A k"
    unfolding chain_rule_sum_def by (rule fold_cong) (use same in auto)
  also have "\<dots> = A k" using a less.prems by simp
  finally show ?case by simp
qed

lemma strip_shape: "strip n' = strip n \<Longrightarrow> shape n' = shape n"
  using strip_fields[of n' n] strip_operand_refs[of n' n] by (simp add: shape_def)


subsection \<open>An example in binary32: \<open>x * x / 6\<close> at \<open>x = 5\<close>\<close>

lemma binade_up_numeral:
  "binade_up (numeral k) e m =
     (if m < 2 powi (e + 1) then e else binade_up (pred_numeral k) (e + 1) m)"
  by (simp add: numeral_eq_Suc)

lemma binade_down_numeral:
  "binade_down (numeral k) e m =
     (if 2 powi e \<le> m then e else binade_down (pred_numeral k) (e - 1) m)"
  by (simp add: numeral_eq_Suc)

lemmas float_eval = zero_float32_def one_float32_def plus_float32_def minus_float32_def
  uminus_float32_def times_float32_def divide_float32_def inverse_float32_def
  round32_def round_even_def binade_def binade_up_numeral binade_down_numeral Let_def

lemma grad_reverse_backward_eq:
  "grad_reverse_backward L st out =
     st\<lparr>grad_reverse_tape :=
          backward_loop L (grad_reverse_current_id st)
            ((zero_derivatives (grad_reverse_current_id st) (grad_reverse_tape st))
               [out := (zero_derivatives (grad_reverse_current_id st) (grad_reverse_tape st) ! out)
                         \<lparr>derivative := 1\<rparr>])\<rparr>"
  by (simp add: grad_reverse_backward_def Let_def)

lemmas backward_eval = grad_reverse_backward_eq zero_derivatives_def backward_node_def
  add_derivative_def

definition quotient_cmds :: "float32 rcmd list" where
  "quotient_cmds = [RInit (Finite False 5), RMul 0 0, RInit (Finite False 6), RDiv 1 2]"

definition quotient_calls :: "float32 rcall list" where
  "quotient_calls = map Build quotient_cmds"

definition quotient_tape :: "float32 grad_reverse_t list" where
  "quotient_tape =
     [\<lparr>value = Finite False 5, derivative = 0, operation = GRAD_OP_NONE, left = 0, right = 0\<rparr>,
      \<lparr>value = Finite False 25, derivative = 0, operation = GRAD_OP_MUL, left = 0, right = 0\<rparr>,
      \<lparr>value = Finite False 6, derivative = 0, operation = GRAD_OP_NONE, left = 0, right = 0\<rparr>,
      \<lparr>value = Finite False (11184811 / 67108864), derivative = 0, operation = GRAD_OP_INV,
       left = 2, right = 0\<rparr>,
      \<lparr>value = Finite False (4369067 / 1048576), derivative = 0, operation = GRAD_OP_MUL,
       left = 1, right = 3\<rparr>,
      \<lparr>value = 0, derivative = 0, operation = GRAD_OP_NONE, left = 0, right = 0\<rparr>,
      \<lparr>value = 0, derivative = 0, operation = GRAD_OP_NONE, left = 0, right = 0\<rparr>,
      \<lparr>value = 0, derivative = 0, operation = GRAD_OP_NONE, left = 0, right = 0\<rparr>]"

definition quotient_state :: "float32 reverse_state" where
  "quotient_state = \<lparr>grad_reverse_tape = quotient_tape, grad_reverse_current_id = 5\<rparr>"

lemma quotient_run:
  "reverse_run libm32 quotient_calls (grad_reverse_start_scope (reverse_state0 8), []) =
     Inr (quotient_state, [0, 1, 2, 4])"
  by (simp add: quotient_calls_def quotient_cmds_def quotient_tape_def quotient_state_def run_eval
      eval_nat_numeral float_eval)

lemma quotient_adjoints:
  "map derivative (grad_reverse_tape (grad_reverse_backward libm32 quotient_state 4)) =
   [Finite False (6990507 / 4194304), Finite False (11184811 / 67108864),
    Finite True (2912711 / 4194304), Finite False 25, Finite False 1, Finite False 0,
    Finite False 0, Finite False 0]"
  by (simp add: quotient_tape_def quotient_state_def backward_eval eval_nat_numeral float_eval)

lemma quotient_adjoint:
  "derivative (grad_reverse_tape (grad_reverse_backward libm32 quotient_state 4) ! 0) =
     Finite False (6990507 / 4194304)"
proof -
  have "length (grad_reverse_tape (grad_reverse_backward libm32 quotient_state 4)) = 8"
    using arg_cong[OF quotient_adjoints, of length] by simp
  then show ?thesis
    using arg_cong[OF quotient_adjoints, of "\<lambda>xs. xs ! 0"] by simp
qed


section \<open>Reverse mode: nodes appended later\<close>

definition same_prefix :: "('a::zero) reverse_state \<Rightarrow> 'a reverse_state \<Rightarrow> bool" where
  "same_prefix st st' =
     (grad_reverse_current_id st \<le> grad_reverse_current_id st' \<and>
      (\<forall>i<grad_reverse_current_id st.
         strip (grad_reverse_tape st' ! i) = strip (grad_reverse_tape st ! i)))"

lemma reverse_call_prefix:
  assumes inv: "reverse_inv L s" and ok: "rcalls_ok (length (snd s)) [c]"
    and ex: "reverse_call L c s = Inr s'"
  shows "same_prefix (fst s) (fst s') \<and> take (length (snd s)) (snd s') = snd s"
proof (cases c)
  case (Build b)
  obtain st env where s: "s = (st, env)" by (cases s)
  have "extends (st, env) s'"
    using reverse_exec_inv[of L st env b s'] inv ok ex Build s by simp
  then show ?thesis using s by (simp add: extends_def same_prefix_def)
next
  case (Backward a)
  obtain st env where s: "s = (st, env)" by (cases s)
  have s': "s' = (grad_reverse_backward L st (env ! a), env)" using ex Backward s by simp
  have "grad_reverse_current_id st \<le> length (grad_reverse_tape st)"
    using inv s by (simp add: reverse_inv_def tape_wf_def)
  then have "\<forall>i<grad_reverse_current_id st.
      strip (grad_reverse_tape (grad_reverse_backward L st (env ! a)) ! i) = strip (grad_reverse_tape st ! i)"
    using strip_nth[OF grad_reverse_backward_strip, of _ st L "env ! a"] by simp
  then show ?thesis using s s' by (simp add: same_prefix_def)
qed

lemma same_prefix_trans: "same_prefix a b \<Longrightarrow> same_prefix b c \<Longrightarrow> same_prefix a c"
  by (auto simp: same_prefix_def)

lemma reverse_run_prefix:
  "reverse_inv L s \<Longrightarrow> rcalls_ok (length (snd s)) calls \<Longrightarrow> reverse_run L calls s = Inr s' \<Longrightarrow>
   same_prefix (fst s) (fst s') \<and> take (length (snd s)) (snd s') = snd s"
proof (induction calls arbitrary: s)
  case Nil
  then show ?case by (simp add: same_prefix_def)
next
  case (Cons c calls)
  from Cons.prems(3) obtain s1 where c: "reverse_call L c s = Inr s1"
    and r: "reverse_run L calls s1 = Inr s'"
    by (auto split: sum.splits)
  note ok1 = rcalls_ok_Cons[OF Cons.prems(2)]
  have st: "reverse_inv L s1" "rcalls_ok (length (snd s1)) calls"
    using reverse_call_inv[OF Cons.prems(1) ok1 c, of calls] Cons.prems(2) by simp_all
  have p1: "same_prefix (fst s) (fst s1)" "take (length (snd s)) (snd s1) = snd s"
    using reverse_call_prefix[OF Cons.prems(1) ok1 c] by simp_all
  have p2: "same_prefix (fst s1) (fst s')" "take (length (snd s1)) (snd s') = snd s1"
    using Cons.IH[OF st r] by simp_all
  have "take (length (snd s)) (snd s') = snd s"
    by (metis p1(2) p2(2) take_take min.absorb1 length_take min.cobounded2 nat_le_linear take_all)
  then show ?case using same_prefix_trans[OF p1(1) p2(1)] by simp
qed

subsection \<open>Zero adjoints in binary32\<close>

lemma round32_zero [simp]: "round32 s 0 = Finite s 0"
  by (simp add: float_eval)

lemma round32_one [simp]: "round32 s 1 = Finite s 1"
  by (simp add: float_eval)

lemma is_zero_cases: "is_zero z = (z = Finite False 0 \<or> z = Finite True 0)"
  by (cases z) (auto simp: is_zero_def)

lemma is_finite_cases: "is_finite x = (\<exists>s m. x = Finite s m)"
  by (cases x) (simp_all add: is_finite_def)

text \<open>Adding a zero to \<open>+0\<close> or to 1 changes nothing.\<close>

lemma add_zero:
  "is_zero z \<Longrightarrow> (0::float32) + z = 0"
  "is_zero z \<Longrightarrow> (1::float32) + z = 1"
  by (auto simp: is_zero_cases zero_float32_def one_float32_def plus_float32_def)

text \<open>A finite factor times \<open>+0\<close> is a zero, and so is \<open>+0\<close> or \<open>-0\<close> over a divisor that is neither zero nor NaN.\<close>

lemma mul_zero: "is_finite c \<Longrightarrow> is_zero (c * (0::float32))"
  by (auto simp: is_finite_cases is_zero_def zero_float32_def times_float32_def)

lemma neg_finite: "is_finite c \<Longrightarrow> is_finite (- c :: float32)"
  by (auto simp: is_finite_cases is_finite_def uminus_float32_def)

lemma neg_one_mul_zero: "is_zero (- 1 * (0::float32))"
  by (simp add: is_zero_def zero_float32_def one_float32_def times_float32_def uminus_float32_def)

lemma zero_div: "w \<noteq> NaN \<Longrightarrow> \<not> is_zero w \<Longrightarrow> is_zero ((0::float32) / w)"
  by (cases w) (simp_all add: is_zero_def zero_float32_def divide_float32_def)

lemma neg_zero_div: "w \<noteq> NaN \<Longrightarrow> \<not> is_zero w \<Longrightarrow> is_zero (- (0::float32) / w)"
  by (cases w) (simp_all add: is_zero_def zero_float32_def divide_float32_def uminus_float32_def)

text \<open>
  The factor (or divisor) that the backward pass applies to the adjoint of a node is
  such that a zero adjoint contributes a zero: the operands of \<open>MUL\<close> are finite, the
  square of the operand of \<open>INV\<close> and the operand of \<open>LOG\<close> are neither zero nor NaN,
  and the libm value that \<open>SIN\<close>, \<open>COS\<close> or \<open>EXP\<close> multiplies by is finite.
\<close>

definition partial_finite :: "float32 libm \<Rightarrow> float32 grad_reverse_t list \<Rightarrow> nat \<Rightarrow> bool" where
  "partial_finite L tape i =
     (let n = tape ! i; v = value (tape ! left n) in
      case operation n of
        GRAD_OP_MUL \<Rightarrow> is_finite v \<and> is_finite (value (tape ! right n))
      | GRAD_OP_INV \<Rightarrow> v * v \<noteq> NaN \<and> \<not> is_zero (v * v)
      | GRAD_OP_SIN \<Rightarrow> is_finite (GRAD_COS L v)
      | GRAD_OP_COS \<Rightarrow> is_finite (GRAD_SIN L v)
      | GRAD_OP_EXP \<Rightarrow> is_finite (GRAD_EXP L v)
      | GRAD_OP_LOG \<Rightarrow> v \<noteq> NaN \<and> \<not> is_zero v
      | _ \<Rightarrow> True)"

lemma absorb_zero:
  assumes "partial_finite L tape j" and "a = 0 \<or> a = 1"
  shows "absorb L tape j 0 k a = a"
proof -
  have z: "a + z = a" if "is_zero z" for z
    using assms(2) add_zero[OF that] by auto
  have z0: "a + 0 = a" using z[of 0] by (simp add: is_zero_def zero_float32_def)
  show ?thesis
  proof (cases "operation (tape ! j)")
    case GRAD_OP_MUL
    then show ?thesis
      using assms(1) by (auto simp: absorb_def partial_finite_def Let_def z mul_zero)
  next
    case GRAD_OP_INV
    then show ?thesis
      using assms(1) by (auto simp: absorb_def partial_finite_def Let_def z neg_zero_div)
  next
    case GRAD_OP_COS
    then show ?thesis
      using assms(1) by (auto simp: absorb_def partial_finite_def Let_def z mul_zero neg_finite)
  next
    case GRAD_OP_LOG
    then show ?thesis
      using assms(1) by (auto simp: absorb_def partial_finite_def Let_def z zero_div)
  qed (use assms(1) in \<open>auto simp: absorb_def partial_finite_def Let_def z z0 mul_zero
        neg_one_mul_zero\<close>)
qed


lemma fold_absorb_zero:
  "\<forall>i \<in> set xs. adj i = 0 \<and> partial_finite L tape i \<Longrightarrow> a = 0 \<or> a = 1 \<Longrightarrow>
   fold (\<lambda>i a. absorb L tape i (adj i) k a) xs a = a"
  by (induction xs) (simp_all add: absorb_zero)

text \<open>
  C7: after a client has built a tape with a node \<open>out\<close>, whatever calls follow (they
  append nodes after \<open>out\<close>, which \<open>out\<close> cannot reference), \<^verbatim>\<open>grad_reverse_backward\<close>
  on \<open>out\<close> leaves the same adjoint at every node of the earlier tape as it does
  without the later nodes, provided that at each appended node the factor or divisor
  that the backward pass applies to the adjoint makes a zero of a zero adjoint: the
  operands of an appended \<open>MUL\<close> are finite, the square of the operand of an appended
  \<open>INV\<close> and the operand of an appended \<open>LOG\<close> are neither zero nor NaN, and the libm
  value that an appended \<open>SIN\<close>, \<open>COS\<close> or \<open>EXP\<close> multiplies by is finite.
\<close>

theorem later_nodes_irrelevant:
  assumes "reverse_run L calls (grad_reverse_start_scope st0, []) = Inr (st, env)"
    and "rcalls_ok 0 calls"
    and "reverse_run L extra (st, env) = Inr (st', env')"
    and "rcalls_ok (length env) extra"
    and "list_all (partial_finite L (grad_reverse_tape st'))
           [grad_reverse_current_id st..<grad_reverse_current_id st']"
    and "out < grad_reverse_current_id st"
    and "k < grad_reverse_current_id st"
  shows "derivative (grad_reverse_tape (grad_reverse_backward L st' out) ! k) =
         derivative (grad_reverse_tape (grad_reverse_backward L st out) ! k)"
proof -
  let ?T = "grad_reverse_tape st" and ?n = "grad_reverse_current_id st"
  let ?T' = "grad_reverse_tape st'" and ?n' = "grad_reverse_current_id st'"
  let ?A = "\<lambda>j. derivative (grad_reverse_tape (grad_reverse_backward L st out) ! j)"
  let ?B = "\<lambda>j. derivative (grad_reverse_tape (grad_reverse_backward L st' out) ! j)"
  have inv: "reverse_inv L (st, env)"
    using reverse_run_inv[of L "(grad_reverse_start_scope st0, [])" calls "(st, env)"]
      reverse_inv_start[of L st0] assms(1,2) by simp
  have inv': "reverse_inv L (st', env')"
    using reverse_run_inv[OF inv _ assms(3)] assms(4) by simp
  have pre: "same_prefix st st'"
    using reverse_run_prefix[OF inv _ assms(3)] assms(4) by simp
  have "tape_wf L st" "tape_wf L st'" using inv inv' by (simp_all add: reverse_inv_def)
  then have wf: "graph_wf ?T ?n" and wf': "graph_wf ?T' ?n'"
    by (simp_all add: tape_wf_graph_wf)
  have le: "?n \<le> ?n'" and eq: "\<forall>i<?n. strip (?T' ! i) = strip (?T ! i)"
    using pre by (simp_all add: same_prefix_def)
  have sh: "\<forall>i<?n. shape (?T' ! i) = shape (?T ! i)"
    using eq strip_shape by blast
  have out': "out < ?n'" using assms(6) le by simp
  have a: "\<forall>j<?n. ?A j = chain_rule_sum L ?T out ?n ?A j"
    using backward_chain_rule[OF wf assms(6)] by blast
  have b': "?B j = chain_rule_sum L ?T' out ?n' ?B j" if "j < ?n'" for j
    using backward_chain_rule[OF wf' out' that] .
  have fin: "partial_finite L ?T' i" if "?n \<le> i" "i < ?n'" for i
    using assms(5) that by (simp add: list_all_iff)
  have dead: "?n \<le> j \<Longrightarrow> j < ?n' \<Longrightarrow> ?B j = 0" for j
  proof (induction "?n' - j" arbitrary: j rule: less_induct)
    case less
    have "\<forall>i \<in> set (rev [Suc j..<?n']). ?B i = 0 \<and> partial_finite L ?T' i"
      using less.hyps less.prems fin by auto
    then have "fold (\<lambda>i a. absorb L ?T' i (?B i) j a) (rev [Suc j..<?n']) 0 = 0"
      by (rule fold_absorb_zero) simp
    moreover have "j \<noteq> out" using less.prems assms(6) by simp
    ultimately show ?case
      using b'[OF less.prems(2)] by (simp add: chain_rule_sum_def)
  qed
  have b: "\<forall>j<?n. ?B j = chain_rule_sum L ?T' out ?n ?B j"
  proof (intro allI impI)
    fix j assume j: "j < ?n"
    let ?f = "\<lambda>i a. absorb L ?T' i (?B i) j a"
    let ?s = "if j = out then 1 else (0::float32)"
    have "[Suc j..<?n'] = [Suc j..<?n] @ [?n..<?n']"
      using j le upt_add_eq_append[of "Suc j" ?n "?n' - ?n"] by simp
    then have "rev [Suc j..<?n'] = rev [?n..<?n'] @ rev [Suc j..<?n]" by simp
    then have "fold ?f (rev [Suc j..<?n']) ?s = fold ?f (rev [Suc j..<?n]) (fold ?f (rev [?n..<?n']) ?s)"
      by simp
    moreover have "fold ?f (rev [?n..<?n']) ?s = ?s"
      by (rule fold_absorb_zero) (use dead fin in auto)
    ultimately show "?B j = chain_rule_sum L ?T' out ?n ?B j"
      using b'[of j] j le by (simp add: chain_rule_sum_def)
  qed
  show ?thesis
    using chain_rule_unique[OF wf sh a b assms(7)] by simp
qed


definition quotient_extra_state :: "float32 reverse_state" where
  "quotient_extra_state =
     \<lparr>grad_reverse_tape =
        quotient_tape
          [5 := \<lparr>value = Finite False (13421773 / 67108864), derivative = 0,
                  operation = GRAD_OP_INV, left = 0, right = 0\<rparr>,
           6 := \<lparr>value = Finite False (13981015 / 16777216), derivative = 0,
                  operation = GRAD_OP_MUL, left = 4, right = 5\<rparr>],
      grad_reverse_current_id = 7\<rparr>"

lemma quotient_extra_run:
  "reverse_run libm32 [Build (RInv 0), Build (RMul 3 4)] (quotient_state, [0, 1, 2, 4]) =
   Inr (quotient_extra_state, [0, 1, 2, 4, 5, 6])"
  by (simp add: quotient_tape_def quotient_state_def quotient_extra_state_def run_eval
      eval_nat_numeral float_eval)

lemma quotient_extra_finite:
  "list_all (partial_finite libm32 (grad_reverse_tape quotient_extra_state))
     [grad_reverse_current_id quotient_state..<grad_reverse_current_id quotient_extra_state]"
  by (simp add: quotient_tape_def quotient_state_def quotient_extra_state_def partial_finite_def
      is_finite_def is_zero_def eval_nat_numeral float_eval)

theorem later_nodes_irrelevant_witness:
  "reverse_run libm32 quotient_calls (grad_reverse_start_scope (reverse_state0 8), []) =
     Inr (quotient_state, [0, 1, 2, 4]) \<and>
   rcalls_ok 0 quotient_calls \<and>
   reverse_run libm32 [Build (RInv 0), Build (RMul 3 4)] (quotient_state, [0, 1, 2, 4]) =
     Inr (quotient_extra_state, [0, 1, 2, 4, 5, 6]) \<and>
   rcalls_ok (length [0, 1, 2, 4 :: nat]) [Build (RInv 0), Build (RMul 3 4) :: float32 rcall] \<and>
   list_all (partial_finite libm32 (grad_reverse_tape quotient_extra_state))
     [grad_reverse_current_id quotient_state..<grad_reverse_current_id quotient_extra_state] \<and>
   4 < grad_reverse_current_id quotient_state \<and> 0 < grad_reverse_current_id quotient_state \<and>
   derivative (grad_reverse_tape (grad_reverse_backward libm32 quotient_extra_state 4) ! 0) =
     Finite False (6990507 / 4194304)"
proof -
  have ok: "rcalls_ok 0 quotient_calls" by (simp add: quotient_calls_def quotient_cmds_def)
  have ok': "rcalls_ok (length [0, 1, 2, 4 :: nat]) [Build (RInv 0), Build (RMul 3 4) :: float32 rcall]"
    by simp
  have o: "4 < grad_reverse_current_id quotient_state"
    and k: "0 < grad_reverse_current_id quotient_state"
    by (simp_all add: quotient_state_def)
  from later_nodes_irrelevant[OF quotient_run ok quotient_extra_run ok' quotient_extra_finite o k]
    quotient_run ok quotient_extra_run ok' quotient_extra_finite o k
  show ?thesis by (simp add: quotient_adjoint)
qed

subsection \<open>A later node that changes an adjoint: \<open>f = x + x\<close> at \<open>x = 0\<close>, then \<open>1 / x\<close>\<close>

definition double_state :: "float32 reverse_state" where
  "double_state =
     \<lparr>grad_reverse_tape =
        [\<lparr>value = Finite False 0, derivative = 0, operation = GRAD_OP_NONE, left = 0, right = 0\<rparr>,
         \<lparr>value = Finite False 0, derivative = 0, operation = GRAD_OP_ADD, left = 0, right = 0\<rparr>,
         \<lparr>value = 0, derivative = 0, operation = GRAD_OP_NONE, left = 0, right = 0\<rparr>],
      grad_reverse_current_id = 2\<rparr>"

definition double_inv_state :: "float32 reverse_state" where
  "double_inv_state =
     \<lparr>grad_reverse_tape =
        [\<lparr>value = Finite False 0, derivative = 0, operation = GRAD_OP_NONE, left = 0, right = 0\<rparr>,
         \<lparr>value = Finite False 0, derivative = 0, operation = GRAD_OP_ADD, left = 0, right = 0\<rparr>,
         \<lparr>value = Infinity False, derivative = 0, operation = GRAD_OP_INV, left = 0, right = 0\<rparr>],
      grad_reverse_current_id = 3\<rparr>"

theorem later_node_changes_adjoint:
  "reverse_run libm32 [Build (RInit (Finite False 0)), Build (RAdd 0 0)]
     (grad_reverse_start_scope (reverse_state0 3), []) = Inr (double_state, [0, 1]) \<and>
   reverse_run libm32 [Build (RInv 0)] (double_state, [0, 1]) = Inr (double_inv_state, [0, 1, 2]) \<and>
   derivative (grad_reverse_tape (grad_reverse_backward libm32 double_state 1) ! 0) =
     Finite False 2 \<and>
   derivative (grad_reverse_tape (grad_reverse_backward libm32 double_inv_state 1) ! 0) = NaN"
  by (simp add: double_state_def double_inv_state_def run_eval backward_eval eval_nat_numeral
      float_eval)

section \<open>Scope reset\<close>

text \<open>
  What a client can read from a live node: its value, its adjoint, its operation and
  the operand pointers that belong to the operation.
\<close>

definition node_view :: "'a grad_reverse_t \<Rightarrow> 'a \<times> 'a \<times> grad_reverse_op_t \<times> nat list" where
  "node_view n = (value n, derivative n, operation n, operand_refs n)"

definition live_nodes ::
  "'a reverse_state \<Rightarrow> ('a \<times> 'a \<times> grad_reverse_op_t \<times> nat list) list" where
  "live_nodes st = map node_view (take (grad_reverse_current_id st) (grad_reverse_tape st))"

text \<open>The outcome of a run as the client sees it: the error, or the live nodes and the pointers returned.\<close>

definition observe ::
  "error + ('a reverse_state \<times> nat list) \<Rightarrow>
   error + (('a \<times> 'a \<times> grad_reverse_op_t \<times> nat list) list \<times> nat list)" where
  "observe r = (case r of Inl e \<Rightarrow> Inl e | Inr (st, env) \<Rightarrow> Inr (live_nodes st, env))"


definition sim :: "'a reverse_state \<Rightarrow> 'a reverse_state \<Rightarrow> bool" where
  "sim a b =
     (grad_reverse_current_id a = grad_reverse_current_id b \<and>
      length (grad_reverse_tape a) = length (grad_reverse_tape b) \<and>
      (\<forall>i<grad_reverse_current_id a.
         node_view (grad_reverse_tape a ! i) = node_view (grad_reverse_tape b ! i)))"

lemma sim_node_value:
  "sim a b \<Longrightarrow> p < grad_reverse_current_id a \<Longrightarrow> node_value a p = node_value b p"
  by (auto simp: sim_def node_value_def node_view_def)

lemma sim_has_room: "sim a b \<Longrightarrow> has_room a = has_room b"
  by (simp add: sim_def has_room_def)

lemma sim_push:
  assumes "sim a b" and "has_room a"
    and "node_view (f (grad_reverse_tape a ! grad_reverse_current_id a)) =
         node_view (g (grad_reverse_tape b ! grad_reverse_current_id b))"
  shows "sim (push_node a f) (push_node b g)"
  using assms sim_has_room[OF assms(1)]
  by (auto simp: sim_def push_node_nth less_Suc_eq)

definition sim_built :: "error + (nat \<times> 'a reverse_state) \<Rightarrow> error + (nat \<times> 'a reverse_state) \<Rightarrow> bool" where
  "sim_built x y =
     (case x of
        Inl e \<Rightarrow> y = Inl e
      | Inr (p, a) \<Rightarrow> (\<exists>b. y = Inr (p, b) \<and> sim a b))"

lemma sim_built_push:
  assumes "sim a b" and "\<And>n n'. node_view (f n) = node_view (g n')"
  shows "sim_built
           (if has_room a then Inr (grad_reverse_current_id a, push_node a f) else Inl CapacityViolation)
           (if has_room b then Inr (grad_reverse_current_id b, push_node b g) else Inl CapacityViolation)"
proof (cases "has_room a")
  case True
  have "sim (push_node a f) (push_node b g)"
    by (rule sim_push[OF assms(1) True]) (rule assms(2))
  moreover have "grad_reverse_current_id a = grad_reverse_current_id b"
    using assms(1) by (simp add: sim_def)
  ultimately show ?thesis
    using True sim_has_room[OF assms(1)] by (simp add: sim_built_def)
next
  case False
  then show ?thesis using sim_has_room[OF assms(1)] by (simp add: sim_built_def)
qed

lemma sim_init: "sim a b \<Longrightarrow> sim_built (grad_reverse_init a v) (grad_reverse_init b v)"
  unfolding grad_reverse_init_eq
  by (rule sim_built_push) (simp_all add: node_view_def operand_refs_def)

lemma sim_add:
  assumes "sim a b" "l < grad_reverse_current_id a" "r < grad_reverse_current_id a"
  shows "sim_built (grad_reverse_add a l r) (grad_reverse_add b l r)"
  unfolding grad_reverse_add_eq
  by (rule sim_built_push[OF assms(1)])
    (simp add: node_view_def operand_refs_def sim_node_value[OF assms(1)] assms)

lemma sim_mul:
  assumes "sim a b" "l < grad_reverse_current_id a" "r < grad_reverse_current_id a"
  shows "sim_built (grad_reverse_mul a l r) (grad_reverse_mul b l r)"
  unfolding grad_reverse_mul_eq
  by (rule sim_built_push[OF assms(1)])
    (simp add: node_view_def operand_refs_def sim_node_value[OF assms(1)] assms)

lemma sim_unary:
  assumes "sim a b" "g < grad_reverse_current_id a"
  shows "sim_built (grad_reverse_neg a g) (grad_reverse_neg b g)"
    and "sim_built (grad_reverse_inv a g) (grad_reverse_inv b g)"
    and "sim_built (grad_reverse_sin L a g) (grad_reverse_sin L b g)"
    and "sim_built (grad_reverse_cos L a g) (grad_reverse_cos L b g)"
    and "sim_built (grad_reverse_exp L a g) (grad_reverse_exp L b g)"
    and "sim_built (grad_reverse_log L a g) (grad_reverse_log L b g)"
  unfolding grad_reverse_unary_eq
  by (rule sim_built_push[OF assms(1)];
      simp add: unary_node_def node_view_def operand_refs_def sim_node_value[OF assms(1)] assms)+

lemma sim_bind:
  assumes "sim_built x y"
    and "\<And>p a b. x = Inr (p, a) \<Longrightarrow> y = Inr (p, b) \<Longrightarrow> sim a b \<Longrightarrow> sim_built (F p a) (G p b)"
  shows "sim_built (case x of Inl e \<Rightarrow> Inl e | Inr (p, a) \<Rightarrow> F p a)
                   (case y of Inl e \<Rightarrow> Inl e | Inr (p, b) \<Rightarrow> G p b)"
proof (cases x)
  case (Inl e)
  then have "y = Inl e" using assms(1) by (simp add: sim_built_def)
  then show ?thesis using Inl by (simp add: sim_built_def)
next
  case (Inr pa)
  obtain p a where pa: "pa = (p, a)" by (cases pa)
  then obtain b where y: "y = Inr (p, b)" and s: "sim a b"
    using assms(1) Inr by (auto simp: sim_built_def)
  have "sim_built (F p a) (G p b)" using assms(2) Inr pa y s by simp
  then show ?thesis using Inr pa y by simp
qed

lemma sim_built_cur:
  "sim a b \<Longrightarrow> grad_reverse_neg a g = Inr (p, a') \<Longrightarrow> p = grad_reverse_current_id a \<and>
     grad_reverse_current_id a' = Suc (grad_reverse_current_id a)"
  "sim a b \<Longrightarrow> grad_reverse_inv a g = Inr (p, a') \<Longrightarrow> p = grad_reverse_current_id a \<and>
     grad_reverse_current_id a' = Suc (grad_reverse_current_id a)"
  by (auto simp: grad_reverse_unary_eq split: if_splits)

lemma sim_sub:
  assumes "sim a b" "l < grad_reverse_current_id a" "r < grad_reverse_current_id a"
  shows "sim_built (grad_reverse_sub a l r) (grad_reverse_sub b l r)"
  unfolding grad_reverse_sub_def
proof (rule sim_bind[OF sim_unary(1)[OF assms(1,3)]])
  fix p a' b' assume "grad_reverse_neg a r = Inr (p, a')" and s: "sim a' b'"
  then have "p = grad_reverse_current_id a" "grad_reverse_current_id a' = Suc (grad_reverse_current_id a)"
    using sim_built_cur(1)[OF assms(1)] by simp_all
  then show "sim_built (grad_reverse_add a' l p) (grad_reverse_add b' l p)"
    using assms(2) by (intro sim_add[OF s]) simp_all
qed

lemma sim_div:
  assumes "sim a b" "l < grad_reverse_current_id a" "r < grad_reverse_current_id a"
  shows "sim_built (grad_reverse_div a l r) (grad_reverse_div b l r)"
  unfolding grad_reverse_div_def
proof (rule sim_bind[OF sim_unary(2)[OF assms(1,3)]])
  fix p a' b' assume "grad_reverse_inv a r = Inr (p, a')" and s: "sim a' b'"
  then have "p = grad_reverse_current_id a" "grad_reverse_current_id a' = Suc (grad_reverse_current_id a)"
    using sim_built_cur(2)[OF assms(1)] by simp_all
  then show "sim_built (grad_reverse_mul a' l p) (grad_reverse_mul b' l p)"
    using assms(2) by (intro sim_mul[OF s]) simp_all
qed

definition sim_result ::
  "error + ('a reverse_state \<times> nat list) \<Rightarrow> error + ('a reverse_state \<times> nat list) \<Rightarrow> bool" where
  "sim_result x y =
     (case x of
        Inl e \<Rightarrow> y = Inl e
      | Inr (a, env) \<Rightarrow> (\<exists>b. y = Inr (b, env) \<and> sim a b))"

lemma returned_sim: "sim_built x y \<Longrightarrow> sim_result (returned env x) (returned env y)"
  by (cases x) (auto simp: sim_built_def sim_result_def returned_def)

lemma sim_exec:
  assumes s: "sim a b" and live: "list_all (\<lambda>p. p < grad_reverse_current_id a) env"
    and ok: "list_all (\<lambda>i. i < length env) (rcmd_refs c)"
  shows "sim_result (reverse_exec L c (a, env)) (reverse_exec L c (b, env))"
proof -
  have l: "env ! i < grad_reverse_current_id a" if "i < length env" for i
    using live that by (simp add: list_all_length)
  show ?thesis
    using ok l
    by (cases c)
      (simp_all add: returned_sim sim_init[OF s] sim_add[OF s] sim_mul[OF s] sim_sub[OF s]
        sim_div[OF s] sim_unary[OF s])
qed

lemma node_view_shape: "node_view n = (value n, derivative n, operation n, operand_refs n)"
  "node_view n' = node_view n \<Longrightarrow> shape n' = shape n"
  by (simp_all add: node_view_def shape_def)

lemma sim_backward:
  assumes s: "sim a b" and wfa: "tape_wf L a" and wfb: "tape_wf L b"
    and out: "out < grad_reverse_current_id a"
  shows "sim (grad_reverse_backward L a out) (grad_reverse_backward L b out)"
proof -
  let ?n = "grad_reverse_current_id a"
  let ?A = "grad_reverse_tape a" and ?B = "grad_reverse_tape b"
  let ?A' = "grad_reverse_tape (grad_reverse_backward L a out)"
  let ?B' = "grad_reverse_tape (grad_reverse_backward L b out)"
  have n: "grad_reverse_current_id b = ?n" and len: "length ?A = length ?B"
    and views: "\<forall>i<?n. node_view (?A ! i) = node_view (?B ! i)"
    using s by (simp_all add: sim_def)
  have na: "?n \<le> length ?A" using tape_wf_bound[OF wfa] .
  have gb: "graph_wf ?B ?n" using tape_wf_graph_wf[OF wfb] n by simp
  have ga: "graph_wf ?A ?n" using tape_wf_graph_wf[OF wfa] .
  have sh: "\<forall>i<?n. shape (?B ! i) = shape (?A ! i)"
    using views node_view_shape(2) by metis
  have ca: "\<forall>k<?n. derivative (?A' ! k) =
      chain_rule_sum L ?A out ?n (\<lambda>j. derivative (?A' ! j)) k"
    using backward_chain_rule[OF ga out] by blast
  have cb: "\<forall>k<?n. derivative (?B' ! k) =
      chain_rule_sum L ?B out ?n (\<lambda>j. derivative (?B' ! j)) k"
    using backward_chain_rule[of b out _ L] gb out n by simp
  have "node_view (?A' ! i) = node_view (?B' ! i)" if i: "i < ?n" for i
  proof -
    have d: "derivative (?A' ! i) = derivative (?B' ! i)"
      using chain_rule_unique[OF ga sh ca cb i] .
    have sa: "shape (?A' ! i) = shape (?A ! i)"
      using strip_shape[OF strip_nth[OF grad_reverse_backward_strip, of i a L out]] i na by simp
    have sb: "shape (?B' ! i) = shape (?B ! i)"
      using strip_shape[OF strip_nth[OF grad_reverse_backward_strip, of i b L out]] i na len by simp
    have "shape (?A' ! i) = shape (?B' ! i)" using sa sb sh i by simp
    then show ?thesis using d by (simp add: node_view_def shape_def)
  qed
  moreover have "length ?A' = length ?B'"
    using map_strip_length[OF grad_reverse_backward_strip, of L a out]
      map_strip_length[OF grad_reverse_backward_strip, of L b out] len by simp
  ultimately show ?thesis using n by (simp add: sim_def)
qed

lemma sim_call:
  assumes s: "sim a b" and ia: "reverse_inv L (a, env)" and ib: "reverse_inv L (b, env)"
    and ok: "rcalls_ok (length env) [c]"
  shows "sim_result (reverse_call L c (a, env)) (reverse_call L c (b, env))"
proof (cases c)
  case (Build x)
  then show ?thesis
    using sim_exec[OF s, of env x] ia ok by (simp add: reverse_inv_def)
next
  case (Backward i)
  have "env ! i < grad_reverse_current_id a"
    using ia ok Backward by (simp add: reverse_inv_def list_all_length)
  then have "sim (grad_reverse_backward L a (env ! i)) (grad_reverse_backward L b (env ! i))"
    using sim_backward[OF s] ia ib by (simp add: reverse_inv_def)
  then show ?thesis using Backward by (simp add: sim_result_def)
qed

lemma sim_run:
  "sim a b \<Longrightarrow> reverse_inv L (a, env) \<Longrightarrow> reverse_inv L (b, env) \<Longrightarrow>
   rcalls_ok (length env) calls \<Longrightarrow>
   sim_result (reverse_run L calls (a, env)) (reverse_run L calls (b, env))"
proof (induction calls arbitrary: a b env)
  case Nil
  then show ?case by (simp add: sim_result_def)
next
  case (Cons c calls)
  note ok1 = rcalls_ok_Cons[OF Cons.prems(4)]
  have step: "sim_result (reverse_call L c (a, env)) (reverse_call L c (b, env))"
    using sim_call[OF Cons.prems(1,2,3) ok1] .
  show ?case
  proof (cases "reverse_call L c (a, env)")
    case (Inl e)
    then have "reverse_call L c (b, env) = Inl e" using step by (simp add: sim_result_def)
    then show ?thesis using Inl by (simp add: sim_result_def)
  next
    case (Inr s1)
    obtain a1 env1 where s1: "s1 = (a1, env1)" by (cases s1)
    obtain b1 where cb: "reverse_call L c (b, env) = Inr (b1, env1)" and s: "sim a1 b1"
      using step Inr s1 by (auto simp: sim_result_def)
    have ia: "reverse_inv L (a1, env1)" "rcalls_ok (length env1) calls"
      using reverse_call_inv[of L "(a, env)" c "(a1, env1)" calls] Cons.prems(2,4) ok1 Inr s1
      by simp_all
    have ib: "reverse_inv L (b1, env1)"
      using reverse_call_inv[of L "(b, env)" c "(b1, env1)" calls] Cons.prems(3) ok1 cb
      by simp
    show ?thesis
      using Cons.IH[OF s ia(1) ib ia(2)] Inr s1 cb by simp
  qed
qed

lemma sim_live_nodes:
  assumes "sim a b" and "grad_reverse_current_id a \<le> length (grad_reverse_tape a)"
  shows "live_nodes a = live_nodes b"
  unfolding live_nodes_def
proof (rule nth_equalityI)
  show "length (map node_view (take (grad_reverse_current_id a) (grad_reverse_tape a))) =
        length (map node_view (take (grad_reverse_current_id b) (grad_reverse_tape b)))"
    using assms by (simp add: sim_def)
  fix i assume "i < length (map node_view (take (grad_reverse_current_id a) (grad_reverse_tape a)))"
  then have "i < grad_reverse_current_id a" by simp
  then show "map node_view (take (grad_reverse_current_id a) (grad_reverse_tape a)) ! i =
             map node_view (take (grad_reverse_current_id b) (grad_reverse_tape b)) ! i"
    using assms by (simp add: sim_def)
qed

lemma reverse_runs_agree:
  assumes ok: "rcalls_ok 0 calls"
    and len: "length (grad_reverse_tape r1) = length (grad_reverse_tape r2)"
  shows "observe (reverse_run L calls (grad_reverse_start_scope r1, [])) =
         observe (reverse_run L calls (grad_reverse_start_scope r2, []))"
proof -
  let ?a = "grad_reverse_start_scope r1" and ?b = "grad_reverse_start_scope r2"
  have s: "sim ?a ?b" using len by (simp add: sim_def grad_reverse_start_scope_def)
  have r: "sim_result (reverse_run L calls (?a, [])) (reverse_run L calls (?b, []))"
    using sim_run[OF s reverse_inv_start[of L r1] reverse_inv_start[of L r2]] ok by simp
  show ?thesis
  proof (cases "reverse_run L calls (?a, [])")
    case (Inl e)
    then show ?thesis using r by (simp add: sim_result_def observe_def)
  next
    case (Inr s1)
    obtain a1 env1 where s1: "s1 = (a1, env1)" by (cases s1)
    obtain b1 where rb: "reverse_run L calls (?b, []) = Inr (b1, env1)" and s': "sim a1 b1"
      using r Inr s1 by (auto simp: sim_result_def)
    have "reverse_inv L (a1, env1)"
      using reverse_run_inv[of L "(?a, [])" calls "(a1, env1)"] reverse_inv_start[of L r1] ok Inr s1
      by simp
    then have "grad_reverse_current_id a1 \<le> length (grad_reverse_tape a1)"
      by (simp add: reverse_inv_def tape_wf_def)
    then show ?thesis
      using sim_live_nodes[OF s'] Inr s1 rb by (simp add: observe_def)
  qed
qed

lemma grad_forward_start_scope_const:
  "grad_forward_start_scope f1 = grad_forward_start_scope f2"
  by (cases f1, cases f2) (simp add: grad_forward_start_scope_def)

text \<open>
  C8: the outcome of a client program run after \<^verbatim>\<open>start_scope\<close> does not depend on the
  state the scope was started in. Forward mode: the Variables returned (and the counter)
  are equal. Reverse mode: the pointers returned are equal, and so are value, adjoint,
  operation and operand pointers of every live node. In particular a second run of the
  same program, started from the state the first run left, gives the first run's
  results again.
\<close>

theorem scope_reset_determinism:
  assumes "fcmds_ok 0 prog" and "rcalls_ok 0 calls"
    and "GRAD_REVERSE_TAPE_SIZE r1 = GRAD_REVERSE_TAPE_SIZE r2"
  shows "forward_run L N prog (grad_forward_start_scope f1, []) =
         forward_run L N prog (grad_forward_start_scope f2, []) \<and>
         observe (reverse_run L calls (grad_reverse_start_scope r1, [])) =
         observe (reverse_run L calls (grad_reverse_start_scope r2, [])) \<and>
         (\<forall>st env. forward_run L N prog (grad_forward_start_scope f1, []) = Inr (st, env) \<longrightarrow>
            forward_run L N prog (grad_forward_start_scope st, []) = Inr (st, env)) \<and>
         (\<forall>st env. reverse_run L calls (grad_reverse_start_scope r1, []) = Inr (st, env) \<longrightarrow>
            observe (reverse_run L calls (grad_reverse_start_scope st, [])) = observe (Inr (st, env)))"
proof (intro conjI allI impI)
  show "forward_run L N prog (grad_forward_start_scope f1, []) =
        forward_run L N prog (grad_forward_start_scope f2, [])"
    using grad_forward_start_scope_const[of f1 f2] by simp
  show "observe (reverse_run L calls (grad_reverse_start_scope r1, [])) =
        observe (reverse_run L calls (grad_reverse_start_scope r2, []))"
    using reverse_runs_agree[OF assms(2), of r1 r2 L] assms(3)
    by (simp add: GRAD_REVERSE_TAPE_SIZE_def)
next
  fix st env assume "forward_run L N prog (grad_forward_start_scope f1, []) = Inr (st, env)"
  then show "forward_run L N prog (grad_forward_start_scope st, []) = Inr (st, env)"
    using grad_forward_start_scope_const[of f1 st] by simp
next
  fix st env assume run: "reverse_run L calls (grad_reverse_start_scope r1, []) = Inr (st, env)"
  have "length (grad_reverse_tape st) = length (grad_reverse_tape r1)"
    using reverse_run_count[OF run] by (simp add: grad_reverse_start_scope_def)
  then show "observe (reverse_run L calls (grad_reverse_start_scope st, [])) = observe (Inr (st, env))"
    using reverse_runs_agree[OF assms(2), of st r1 L] run by simp
qed

theorem scope_reset_determinism_witness:
  "fcmds_ok 0 [FInit (Finite False 5), FMul 0 0, FSin 1] \<and> rcalls_ok 0 (quotient_calls @ [Backward 3]) \<and>
   GRAD_REVERSE_TAPE_SIZE (reverse_state0 8 :: float32 reverse_state) =
     GRAD_REVERSE_TAPE_SIZE quotient_state \<and>
   forward_run libm32 4 [FInit (Finite False 5), FMul 0 0, FSin 1] (grad_forward_start_scope forward_state0, []) =
   forward_run libm32 4 [FInit (Finite False 5), FMul 0 0, FSin 1]
     (grad_forward_start_scope \<lparr>grad_forward_current_id = 3\<rparr>, []) \<and>
   observe (reverse_run libm32 (quotient_calls @ [Backward 3]) (grad_reverse_start_scope (reverse_state0 8), [])) =
   observe (reverse_run libm32 (quotient_calls @ [Backward 3])
     (grad_reverse_start_scope quotient_state, []))"
proof -
  have 1: "fcmds_ok 0 [FInit (Finite False 5), FMul 0 0, FSin 1]" by simp
  have 2: "rcalls_ok 0 (quotient_calls @ [Backward 3])"
    by (simp add: quotient_calls_def quotient_cmds_def)
  have 3: "GRAD_REVERSE_TAPE_SIZE (reverse_state0 8 :: float32 reverse_state) =
     GRAD_REVERSE_TAPE_SIZE quotient_state"
    by (simp add: GRAD_REVERSE_TAPE_SIZE_def reverse_state0_def quotient_tape_def quotient_state_def)
  show ?thesis
    using conjunct1[OF scope_reset_determinism[OF 1 2 3, of libm32 4 forward_state0 "\<lparr>grad_forward_current_id = 3\<rparr>"]]
      conjunct1[OF conjunct2[OF scope_reset_determinism[OF 1 2 3, of libm32 4 forward_state0 "\<lparr>grad_forward_current_id = 3\<rparr>"]]]
      1 2 3 by (intro conjI)
qed

section \<open>Forward mode: the derivative vector of each operation\<close>

text \<open>
  A Variable of the current scope: its derivative array has \<open>N\<close> entries, and the
  entries at the slots not yet given out are zero.
\<close>

definition fwd_ok :: "nat \<Rightarrow> forward_state \<Rightarrow> ('a::zero) grad_forward_t \<Rightarrow> bool" where
  "fwd_ok N st v =
     (length (grad_forward_t.derivative v) = N \<and>
      (\<forall>i<N. grad_forward_current_id st \<le> i \<longrightarrow> grad_forward_t.derivative v ! i = 0))"

lemma derivative_loop_spec:
  assumes "grad_forward_current_id st \<le> N"
  shows "grad_forward_t.value (derivative_loop st f ((forward_zero N)\<lparr>grad_forward_t.value := x\<rparr>)) = x"
    and "length (grad_forward_t.derivative
           (derivative_loop st f ((forward_zero N)\<lparr>grad_forward_t.value := x\<rparr>))) = N"
    and "i < N \<Longrightarrow>
         grad_forward_t.derivative
           (derivative_loop st f ((forward_zero N)\<lparr>grad_forward_t.value := x\<rparr>)) ! i =
         (if i < grad_forward_current_id st then f i else 0)"
  using assms
  by (simp_all add: derivative_loop_def forward_zero_def fold_update_length fold_update_upt_nth)

lemma fwd_ok_loop:
  "grad_forward_current_id st \<le> N \<Longrightarrow>
   fwd_ok N st (derivative_loop st f ((forward_zero N)\<lparr>grad_forward_t.value := x\<rparr>))"
  by (simp add: fwd_ok_def derivative_loop_spec)

lemma fwd_ok_nth: "fwd_ok N st v \<Longrightarrow> i < N \<Longrightarrow> grad_forward_current_id st \<le> i \<Longrightarrow>
  grad_forward_t.derivative v ! i = 0"
  by (simp add: fwd_ok_def)

lemma fwd_ok_mono:
  "fwd_ok N st v \<Longrightarrow> grad_forward_current_id st \<le> grad_forward_current_id st' \<Longrightarrow> fwd_ok N st' v"
  by (simp add: fwd_ok_def)

text \<open>
  The result of each operation: its value, and entry \<open>i\<close> of its derivative array for a
  slot \<open>i\<close> given out, in terms of the operands; the entries of the other slots are zero.
\<close>

lemma forward_add_rule:
  assumes c: "grad_forward_current_id st \<le> N"
  shows "grad_forward_t.value (grad_forward_add N st a b) = grad_forward_t.value a + grad_forward_t.value b"
    and "fwd_ok N st (grad_forward_add N st a b)"
    and "i < grad_forward_current_id st \<Longrightarrow>
         grad_forward_t.derivative (grad_forward_add N st a b) ! i =
           grad_forward_t.derivative a ! i + grad_forward_t.derivative b ! i"
  using c
  by (simp_all add: grad_forward_add_def Let_def derivative_loop_spec[OF c] fwd_ok_loop[OF c])

lemma forward_mul_rule:
  assumes c: "grad_forward_current_id st \<le> N"
  shows "grad_forward_t.value (grad_forward_mul N st a b) = grad_forward_t.value a * grad_forward_t.value b"
    and "fwd_ok N st (grad_forward_mul N st a b)"
    and "i < grad_forward_current_id st \<Longrightarrow>
         grad_forward_t.derivative (grad_forward_mul N st a b) ! i =
           grad_forward_t.derivative a ! i * grad_forward_t.value b + grad_forward_t.value a * grad_forward_t.derivative b ! i"
  using c
  by (simp_all add: grad_forward_mul_def Let_def derivative_loop_spec[OF c] fwd_ok_loop[OF c])

lemma forward_mul_c_rule:
  assumes c: "grad_forward_current_id st \<le> N"
  shows "grad_forward_t.value (grad_forward_mul_c N st a k) = grad_forward_t.value a * k"
    and "fwd_ok N st (grad_forward_mul_c N st a k)"
    and "i < grad_forward_current_id st \<Longrightarrow>
         grad_forward_t.derivative (grad_forward_mul_c N st a k) ! i =
           k * grad_forward_t.derivative a ! i"
  using c
  by (simp_all add: grad_forward_mul_c_def Let_def derivative_loop_spec[OF c] fwd_ok_loop[OF c])

lemma forward_inv_rule:
  assumes c: "grad_forward_current_id st \<le> N"
  shows "grad_forward_t.value (grad_forward_inv N st a) = 1 / grad_forward_t.value a"
    and "fwd_ok N st (grad_forward_inv N st a)"
    and "i < grad_forward_current_id st \<Longrightarrow>
         grad_forward_t.derivative (grad_forward_inv N st a) ! i =
           - grad_forward_t.derivative a ! i * (1 / (grad_forward_t.value a * grad_forward_t.value a))"
  using c
  by (simp_all add: grad_forward_inv_def Let_def derivative_loop_spec[OF c] fwd_ok_loop[OF c])

lemma forward_exp_rule:
  assumes c: "grad_forward_current_id st \<le> N"
  shows "grad_forward_t.value (grad_forward_exp L N st a) = GRAD_EXP L (grad_forward_t.value a)"
    and "fwd_ok N st (grad_forward_exp L N st a)"
    and "i < grad_forward_current_id st \<Longrightarrow>
         grad_forward_t.derivative (grad_forward_exp L N st a) ! i =
           GRAD_EXP L (grad_forward_t.value a) * grad_forward_t.derivative a ! i"
  using c
  by (simp_all add: grad_forward_exp_def Let_def derivative_loop_spec[OF c] fwd_ok_loop[OF c])

lemma forward_log_rule:
  assumes c: "grad_forward_current_id st \<le> N"
  shows "grad_forward_t.value (grad_forward_log L N st a) = GRAD_LOG L (grad_forward_t.value a)"
    and "fwd_ok N st (grad_forward_log L N st a)"
    and "i < grad_forward_current_id st \<Longrightarrow>
         grad_forward_t.derivative (grad_forward_log L N st a) ! i =
           1 / grad_forward_t.value a * grad_forward_t.derivative a ! i"
  using c
  by (simp_all add: grad_forward_log_def Let_def derivative_loop_spec[OF c] fwd_ok_loop[OF c])

lemma forward_sin_rule:
  assumes c: "grad_forward_current_id st \<le> N"
  shows "grad_forward_t.value (grad_forward_sin L N st a) = GRAD_SIN L (grad_forward_t.value a)"
    and "fwd_ok N st (grad_forward_sin L N st a)"
    and "i < grad_forward_current_id st \<Longrightarrow>
         grad_forward_t.derivative (grad_forward_sin L N st a) ! i =
           GRAD_COS L (grad_forward_t.value a) * grad_forward_t.derivative a ! i"
  using c
  by (simp_all add: grad_forward_sin_def Let_def derivative_loop_spec[OF c] fwd_ok_loop[OF c])

lemma forward_cos_rule:
  assumes c: "grad_forward_current_id st \<le> N"
  shows "grad_forward_t.value (grad_forward_cos L N st a) = GRAD_COS L (grad_forward_t.value a)"
    and "fwd_ok N st (grad_forward_cos L N st a)"
    and "i < grad_forward_current_id st \<Longrightarrow>
         grad_forward_t.derivative (grad_forward_cos L N st a) ! i =
           - GRAD_SIN L (grad_forward_t.value a) * grad_forward_t.derivative a ! i"
  using c
  by (simp_all add: grad_forward_cos_def Let_def derivative_loop_spec[OF c] fwd_ok_loop[OF c])

lemma forward_sqrt_rule:
  assumes c: "grad_forward_current_id st \<le> N"
  shows "grad_forward_t.value (grad_forward_sqrt L N st a) = GRAD_SQRT L (grad_forward_t.value a)"
    and "fwd_ok N st (grad_forward_sqrt L N st a)"
    and "i < grad_forward_current_id st \<Longrightarrow>
         grad_forward_t.derivative (grad_forward_sqrt L N st a) ! i =
           1 / (1 + 1) / GRAD_SQRT L (grad_forward_t.value a) * grad_forward_t.derivative a ! i"
  using c
  by (simp_all add: grad_forward_sqrt_def Let_def derivative_loop_spec[OF c] fwd_ok_loop[OF c])

lemma forward_pow_rule:
  assumes c: "grad_forward_current_id st \<le> N"
  shows "grad_forward_t.value (grad_forward_pow L N st a e) = GRAD_POW L (grad_forward_t.value a) e"
    and "fwd_ok N st (grad_forward_pow L N st a e)"
    and "i < grad_forward_current_id st \<Longrightarrow>
         grad_forward_t.derivative (grad_forward_pow L N st a e) ! i =
           e * GRAD_POW L (grad_forward_t.value a) (e - 1) * grad_forward_t.derivative a ! i"
  using c
  by (simp_all add: grad_forward_pow_def Let_def derivative_loop_spec[OF c] fwd_ok_loop[OF c])

lemma forward_add_c_rule:
  assumes a: "fwd_ok N st a"
  shows "grad_forward_t.value (grad_forward_add_c N st a k) = grad_forward_t.value a + k"
    and "fwd_ok N st (grad_forward_add_c N st a k)"
    and "grad_forward_t.derivative (grad_forward_add_c N st a k) = grad_forward_t.derivative a"
  using a by (simp_all add: grad_forward_add_c_def Let_def forward_zero_def fwd_ok_def)

lemma forward_neg_rule:
  assumes c: "grad_forward_current_id st \<le> N"
  shows "grad_forward_t.value (grad_forward_neg N st a) = grad_forward_t.value a * - 1"
    and "fwd_ok N st (grad_forward_neg N st a)"
    and "i < grad_forward_current_id st \<Longrightarrow>
         grad_forward_t.derivative (grad_forward_neg N st a) ! i = - 1 * grad_forward_t.derivative a ! i"
  by (simp_all add: grad_forward_neg_def forward_mul_c_rule[OF c])

lemma forward_sub_rule:
  assumes c: "grad_forward_current_id st \<le> N"
  shows "grad_forward_t.value (grad_forward_sub N st a b) = grad_forward_t.value a + grad_forward_t.value b * - 1"
    and "fwd_ok N st (grad_forward_sub N st a b)"
    and "i < grad_forward_current_id st \<Longrightarrow>
         grad_forward_t.derivative (grad_forward_sub N st a b) ! i = grad_forward_t.derivative a ! i + - 1 * grad_forward_t.derivative b ! i"
  by (simp_all add: grad_forward_sub_def Let_def forward_add_rule[OF c] forward_neg_rule[OF c])

lemma forward_div_rule:
  assumes c: "grad_forward_current_id st \<le> N"
  shows "grad_forward_t.value (grad_forward_div N st a b) = grad_forward_t.value a * (1 / grad_forward_t.value b)"
    and "fwd_ok N st (grad_forward_div N st a b)"
    and "i < grad_forward_current_id st \<Longrightarrow>
         grad_forward_t.derivative (grad_forward_div N st a b) ! i =
           grad_forward_t.derivative a ! i * (1 / grad_forward_t.value b) +
           grad_forward_t.value a * (- grad_forward_t.derivative b ! i * (1 / (grad_forward_t.value b * grad_forward_t.value b)))"
  by (simp_all add: grad_forward_div_def Let_def forward_mul_rule[OF c] forward_inv_rule[OF c])

lemma forward_tan_rule:
  assumes c: "grad_forward_current_id st \<le> N"
  shows "grad_forward_t.value (grad_forward_tan L N st a) =
           GRAD_SIN L (grad_forward_t.value a) * (1 / GRAD_COS L (grad_forward_t.value a))"
    and "fwd_ok N st (grad_forward_tan L N st a)"
    and "i < grad_forward_current_id st \<Longrightarrow>
         grad_forward_t.derivative (grad_forward_tan L N st a) ! i =
           GRAD_COS L (grad_forward_t.value a) * grad_forward_t.derivative a ! i * (1 / GRAD_COS L (grad_forward_t.value a)) +
           GRAD_SIN L (grad_forward_t.value a) *
             (- (- GRAD_SIN L (grad_forward_t.value a) * grad_forward_t.derivative a ! i) *
                (1 / (GRAD_COS L (grad_forward_t.value a) * GRAD_COS L (grad_forward_t.value a))))"
  by (simp_all add: grad_forward_tan_def Let_def forward_div_rule[OF c] forward_sin_rule[OF c]
      forward_cos_rule[OF c])

lemma forward_init_rule:
  assumes "grad_forward_init N st x = Inr (v, st')"
  shows "grad_forward_t.value v = x" and "slot_id v = grad_forward_current_id st"
    and "grad_forward_current_id st' = Suc (grad_forward_current_id st)"
    and "grad_forward_current_id st < N"
    and "fwd_ok N st' v"
    and "i < N \<Longrightarrow> grad_forward_t.derivative v ! i = (if i = grad_forward_current_id st then 1 else 0)"
  using assms
  by (auto simp: grad_forward_init_eq fwd_ok_def nth_list_update split: if_splits)

section \<open>Forward mode: the chain rule along a program\<close>

text \<open>
  The value of the Variable that a call of an elementary operation returns, and entry
  \<open>i\<close> of its derivative array, from the Variables \<open>env\<close> the client holds: the chain
  rule of the operation, evaluated in the arithmetic of the scalar type.
\<close>

fun op_value ::
  "('a::{zero,one,plus,minus,uminus,times,inverse}) libm \<Rightarrow> 'a fcmd \<Rightarrow> 'a grad_forward_t list \<Rightarrow> 'a" where
  "op_value L (FInit v) env = v"
| "op_value L (FAdd a b) env = grad_forward_t.value (env ! a) + grad_forward_t.value (env ! b)"
| "op_value L (FAddC a c) env = grad_forward_t.value (env ! a) + c"
| "op_value L (FMul a b) env = grad_forward_t.value (env ! a) * grad_forward_t.value (env ! b)"
| "op_value L (FMulC a c) env = grad_forward_t.value (env ! a) * c"
| "op_value L (FInv a) env = 1 / grad_forward_t.value (env ! a)"
| "op_value L (FDiv a b) env =
     grad_forward_t.value (env ! a) * (1 / grad_forward_t.value (env ! b))"
| "op_value L (FNeg a) env = grad_forward_t.value (env ! a) * - 1"
| "op_value L (FSub a b) env =
     grad_forward_t.value (env ! a) + grad_forward_t.value (env ! b) * - 1"
| "op_value L (FExp a) env = GRAD_EXP L (grad_forward_t.value (env ! a))"
| "op_value L (FLog a) env = GRAD_LOG L (grad_forward_t.value (env ! a))"
| "op_value L (FSin a) env = GRAD_SIN L (grad_forward_t.value (env ! a))"
| "op_value L (FCos a) env = GRAD_COS L (grad_forward_t.value (env ! a))"
| "op_value L (FTan a) env =
     GRAD_SIN L (grad_forward_t.value (env ! a)) * (1 / GRAD_COS L (grad_forward_t.value (env ! a)))"
| "op_value L (FSqrt a) env = GRAD_SQRT L (grad_forward_t.value (env ! a))"
| "op_value L (FPow a e) env = GRAD_POW L (grad_forward_t.value (env ! a)) e"

fun op_derivative ::
  "('a::{zero,one,plus,minus,uminus,times,inverse}) libm \<Rightarrow> 'a fcmd \<Rightarrow> 'a grad_forward_t list \<Rightarrow> nat \<Rightarrow> 'a" where
  "op_derivative L (FInit v) env i = 0"
| "op_derivative L (FAdd a b) env i =
     grad_forward_t.derivative (env ! a) ! i + grad_forward_t.derivative (env ! b) ! i"
| "op_derivative L (FAddC a c) env i = grad_forward_t.derivative (env ! a) ! i"
| "op_derivative L (FMul a b) env i =
     grad_forward_t.derivative (env ! a) ! i * grad_forward_t.value (env ! b) +
     grad_forward_t.value (env ! a) * grad_forward_t.derivative (env ! b) ! i"
| "op_derivative L (FMulC a c) env i = c * grad_forward_t.derivative (env ! a) ! i"
| "op_derivative L (FInv a) env i =
     - grad_forward_t.derivative (env ! a) ! i *
       (1 / (grad_forward_t.value (env ! a) * grad_forward_t.value (env ! a)))"
| "op_derivative L (FDiv a b) env i =
     grad_forward_t.derivative (env ! a) ! i * (1 / grad_forward_t.value (env ! b)) +
     grad_forward_t.value (env ! a) *
       (- grad_forward_t.derivative (env ! b) ! i *
          (1 / (grad_forward_t.value (env ! b) * grad_forward_t.value (env ! b))))"
| "op_derivative L (FNeg a) env i = - 1 * grad_forward_t.derivative (env ! a) ! i"
| "op_derivative L (FSub a b) env i =
     grad_forward_t.derivative (env ! a) ! i + - 1 * grad_forward_t.derivative (env ! b) ! i"
| "op_derivative L (FExp a) env i =
     GRAD_EXP L (grad_forward_t.value (env ! a)) * grad_forward_t.derivative (env ! a) ! i"
| "op_derivative L (FLog a) env i =
     1 / grad_forward_t.value (env ! a) * grad_forward_t.derivative (env ! a) ! i"
| "op_derivative L (FSin a) env i =
     GRAD_COS L (grad_forward_t.value (env ! a)) * grad_forward_t.derivative (env ! a) ! i"
| "op_derivative L (FCos a) env i =
     - GRAD_SIN L (grad_forward_t.value (env ! a)) * grad_forward_t.derivative (env ! a) ! i"
| "op_derivative L (FTan a) env i =
     GRAD_COS L (grad_forward_t.value (env ! a)) * grad_forward_t.derivative (env ! a) ! i *
       (1 / GRAD_COS L (grad_forward_t.value (env ! a))) +
     GRAD_SIN L (grad_forward_t.value (env ! a)) *
       (- (- GRAD_SIN L (grad_forward_t.value (env ! a)) * grad_forward_t.derivative (env ! a) ! i) *
          (1 / (GRAD_COS L (grad_forward_t.value (env ! a)) *
                GRAD_COS L (grad_forward_t.value (env ! a)))))"
| "op_derivative L (FSqrt a) env i =
     1 / (1 + 1) / GRAD_SQRT L (grad_forward_t.value (env ! a)) *
       grad_forward_t.derivative (env ! a) ! i"
| "op_derivative L (FPow a e) env i =
     e * GRAD_POW L (grad_forward_t.value (env ! a)) (e - 1) *
       grad_forward_t.derivative (env ! a) ! i"

lemma op_cong:
  assumes "\<forall>a \<in> set (fcmd_refs c). env' ! a = env ! a"
  shows "op_value L c env' = op_value L c env" and "op_derivative L c env' i = op_derivative L c env i"
  using assms by (cases c; simp)+

text \<open>The state of a client between two calls: a counter within the capacity and Variables of the scope.\<close>

definition forward_inv :: "nat \<Rightarrow> forward_state \<times> ('a::zero) grad_forward_t list \<Rightarrow> bool" where
  "forward_inv N s =
     (grad_forward_current_id (fst s) \<le> N \<and> (\<forall>x \<in> set (snd s). fwd_ok N (fst s) x))"

lemma forward_exec_rule:
  assumes inv: "forward_inv N (st, env)"
    and refs: "list_all (\<lambda>a. a < length env) (fcmd_refs c)"
    and op: "\<not> is_FInit c"
  shows "\<exists>r. forward_exec L N c (st, env) = Inr (st, env @ [r]) \<and>
             grad_forward_t.value r = op_value L c env \<and> fwd_ok N st r \<and>
             (\<forall>i<grad_forward_current_id st.
                grad_forward_t.derivative r ! i = op_derivative L c env i)"
proof -
  have c: "grad_forward_current_id st \<le> N" using inv by (simp add: forward_inv_def)
  have ok: "fwd_ok N st (env ! a)" if "a < length env" for a
    using inv that by (simp add: forward_inv_def)
  show ?thesis
  proof (cases c)
    case (FInit v)
    then show ?thesis using op by simp
  next
    case (FAdd a b)
    then show ?thesis by (simp add: forward_add_rule[OF c])
  next
    case (FAddC a k)
    then show ?thesis using refs ok by (simp add: forward_add_c_rule)
  next
    case (FMul a b)
    then show ?thesis by (simp add: forward_mul_rule[OF c])
  next
    case (FMulC a k)
    then show ?thesis by (simp add: forward_mul_c_rule[OF c])
  next
    case (FInv a)
    then show ?thesis by (simp add: forward_inv_rule[OF c])
  next
    case (FDiv a b)
    then show ?thesis by (simp add: forward_div_rule[OF c])
  next
    case (FNeg a)
    then show ?thesis by (simp add: forward_neg_rule[OF c])
  next
    case (FSub a b)
    then show ?thesis by (simp add: forward_sub_rule[OF c])
  next
    case (FExp a)
    then show ?thesis by (simp add: forward_exp_rule[OF c])
  next
    case (FLog a)
    then show ?thesis by (simp add: forward_log_rule[OF c])
  next
    case (FSin a)
    then show ?thesis by (simp add: forward_sin_rule[OF c])
  next
    case (FCos a)
    then show ?thesis by (simp add: forward_cos_rule[OF c])
  next
    case (FTan a)
    then show ?thesis by (simp add: forward_tan_rule[OF c])
  next
    case (FSqrt a)
    then show ?thesis by (simp add: forward_sqrt_rule[OF c])
  next
    case (FPow a e)
    then show ?thesis by (simp add: forward_pow_rule[OF c])
  qed
qed

lemma forward_exec_inv:
  assumes inv: "forward_inv N (st, env)"
    and refs: "list_all (\<lambda>a. a < length env) (fcmd_refs c)"
    and ex: "forward_exec L N c (st, env) = Inr (st', env')"
  shows "forward_inv N (st', env') \<and> take (length env) env' = env \<and>
         length env' = Suc (length env) \<and>
         grad_forward_current_id st' =
           grad_forward_current_id st + (if is_FInit c then 1 else 0)"
proof (cases "is_FInit c")
  case True
  then obtain v where c: "c = FInit v" by (cases c) simp_all
  from ex c obtain r where r: "grad_forward_init N st v = Inr (r, st')" and e: "env' = env @ [r]"
    by (auto split: sum.splits)
  note spec = forward_init_rule[OF r]
  have "fwd_ok N st' x" if "x \<in> set env" for x
    using inv that spec(3) fwd_ok_mono[of N st x st'] by (simp add: forward_inv_def)
  then show ?thesis
    using spec(3,4,5) e True by (auto simp: forward_inv_def)
next
  case False
  from forward_exec_rule[OF inv refs False, of L] ex obtain r where
    "st' = st" "env' = env @ [r]" "fwd_ok N st r"
    by auto
  then show ?thesis using inv False by (auto simp: forward_inv_def)
qed


lemma take_nth_eq: "take n ys = xs \<Longrightarrow> a < length xs \<Longrightarrow> ys ! a = xs ! a"
  by (metis nth_take length_take min_less_iff_conj)

lemma forward_run_rule:
  "forward_inv N (st, env) \<Longrightarrow> fcmds_ok (length env) prog \<Longrightarrow>
   forward_run L N prog (st, env) = Inr (st', env') \<Longrightarrow>
   take (length env) env' = env \<and> length env' = length env + length prog \<and>
   (\<forall>p<length prog. \<not> is_FInit (prog ! p) \<longrightarrow>
      grad_forward_t.value (env' ! (length env + p)) = op_value L (prog ! p) env' \<and>
      (\<forall>i<N. grad_forward_t.derivative (env' ! (length env + p)) ! i =
         (if i < grad_forward_current_id st + length (filter is_FInit (take p prog))
          then op_derivative L (prog ! p) env' i else 0)))"
proof (induction prog arbitrary: st env)
  case Nil
  then show ?case by simp
next
  case (Cons c cs)
  from Cons.prems(3) obtain s1 e1 where
    ex: "forward_exec L N c (st, env) = Inr (s1, e1)"
    and run: "forward_run L N cs (s1, e1) = Inr (st', env')"
    by (auto split: sum.splits)
  have refs: "list_all (\<lambda>a. a < length env) (fcmd_refs c)" and ok: "fcmds_ok (Suc (length env)) cs"
    using Cons.prems(2) by simp_all
  have step: "forward_inv N (s1, e1)" "take (length env) e1 = env" "length e1 = Suc (length env)"
    "grad_forward_current_id s1 = grad_forward_current_id st + (if is_FInit c then 1 else 0)"
    using forward_exec_inv[OF Cons.prems(1) refs ex] by simp_all
  have IH: "take (length e1) env' = e1" "length env' = length e1 + length cs"
    "\<forall>p<length cs. \<not> is_FInit (cs ! p) \<longrightarrow>
      grad_forward_t.value (env' ! (length e1 + p)) = op_value L (cs ! p) env' \<and>
      (\<forall>i<N. grad_forward_t.derivative (env' ! (length e1 + p)) ! i =
         (if i < grad_forward_current_id s1 + length (filter is_FInit (take p cs))
          then op_derivative L (cs ! p) env' i else 0))"
    using Cons.IH[OF step(1) _ run] ok step(3) by simp_all
  have pre: "take (length env) env' = env"
    by (metis IH(1) step(2,3) take_take min.absorb1 le_add2 plus_1_eq_Suc)
  have first: "grad_forward_t.value (env' ! length env) = op_value L c env' \<and>
      (\<forall>i<N. grad_forward_t.derivative (env' ! length env) ! i =
         (if i < grad_forward_current_id st then op_derivative L c env' i else 0))"
    if op: "\<not> is_FInit c"
  proof -
    from forward_exec_rule[OF Cons.prems(1) refs op, of L] ex obtain r where
      r: "e1 = env @ [r]" "grad_forward_t.value r = op_value L c env" "fwd_ok N st r"
        "\<forall>i<grad_forward_current_id st. grad_forward_t.derivative r ! i = op_derivative L c env i"
      by auto
    have "env' ! length env = e1 ! length env"
      using take_nth_eq[OF IH(1), of "length env"] step(3) by simp
    then have at: "env' ! length env = r" using r(1) by simp
    have "\<forall>a \<in> set (fcmd_refs c). env' ! a = env ! a"
      using refs take_nth_eq[OF pre] by (simp add: list_all_iff)
    then have cong: "op_value L c env' = op_value L c env"
      "\<And>i. op_derivative L c env' i = op_derivative L c env i"
      using op_cong[of c env' env L] by simp_all
    show ?thesis
      using at r(2,3,4) cong fwd_ok_nth[OF r(3)] by (auto simp: not_less)
  qed
  have "grad_forward_t.value (env' ! (length env + p)) = op_value L ((c # cs) ! p) env' \<and>
      (\<forall>i<N. grad_forward_t.derivative (env' ! (length env + p)) ! i =
         (if i < grad_forward_current_id st + length (filter is_FInit (take p (c # cs)))
          then op_derivative L ((c # cs) ! p) env' i else 0))"
    if p: "p < length (c # cs)" and op: "\<not> is_FInit ((c # cs) ! p)" for p
  proof (cases p)
    case 0
    then show ?thesis using first op by simp
  next
    case (Suc q)
    then have q: "q < length cs" "\<not> is_FInit (cs ! q)" using p op by simp_all
    show ?thesis
      using IH(3) q step(3,4) Suc by (simp add: add.assoc)
  qed
  then show ?case using pre IH(2) step(3) by simp
qed

lemma forward_inv_start: "forward_inv N (grad_forward_start_scope f0, [])"
  by (simp add: forward_inv_def grad_forward_start_scope_def)


subsection \<open>An example in binary32: \<open>x * x / y\<close> at \<open>x = 5\<close>, \<open>y = 6\<close>\<close>

definition quotient_prog :: "float32 fcmd list" where
  "quotient_prog = map forward_of quotient_cmds"

definition quotient_env :: "float32 grad_forward_t list" where
  "quotient_env =
     [\<lparr>slot_id = 0, value = Finite False 5, derivative = [Finite False 1, Finite False 0]\<rparr>,
      \<lparr>slot_id = 0, value = Finite False 25, derivative = [Finite False 10, Finite False 0]\<rparr>,
      \<lparr>slot_id = 1, value = Finite False 6, derivative = [Finite False 0, Finite False 1]\<rparr>,
      \<lparr>slot_id = 0, value = Finite False (4369067 / 1048576),
       derivative = [Finite False (6990507 / 4194304), Finite True (11650845 / 16777216)]\<rparr>]"

lemmas forward_eval =
  grad_forward_init_def grad_forward_mul_def grad_forward_div_def grad_forward_inv_def
  derivative_loop_def forward_zero_def grad_forward_start_scope_def forward_state0_def

lemma quotient_prog_run:
  "forward_run libm32 2 quotient_prog (grad_forward_start_scope forward_state0, []) =
     Inr (\<lparr>grad_forward_current_id = 2\<rparr>, quotient_env)"
  by (simp add: quotient_prog_def quotient_cmds_def quotient_env_def forward_eval eval_nat_numeral float_eval)


section \<open>Exact arithmetic\<close>

text \<open>
  The two engines over the field of real numbers, with the mathematical functions for
  libm: no operation rounds, overflows or yields NaN. What the engines compute there is
  what their floating-point results approximate.
\<close>

definition real_libm :: "real libm" where
  "real_libm =
     \<lparr>GRAD_EXP = exp, GRAD_LOG = ln, GRAD_SIN = sin, GRAD_COS = cos, GRAD_SQRT = sqrt,
      GRAD_POW = (\<lambda>x e. if e = of_int \<lfloor>e\<rfloor> then x powi \<lfloor>e\<rfloor> else x powr e)\<rparr>"

text \<open>
  \<open>revalue L tape k t m\<close>: the values of the nodes \<open>0\<close>, ..., \<open>m - 1\<close> of the recorded
  graph when the value of node \<open>k\<close> is \<open>t\<close>: every other node is recomputed from its
  operands by its own operation. The output as a function of \<open>t\<close> is the function
  whose derivative the adjoint of node \<open>k\<close> is to be.
\<close>

fun revalue :: "('a::{zero,one,plus,minus,uminus,times,inverse}) libm \<Rightarrow> 'a grad_reverse_t list \<Rightarrow> nat \<Rightarrow> 'a \<Rightarrow> nat \<Rightarrow> 'a list" where
  "revalue L tape k t 0 = []"
| "revalue L tape k t (Suc j) =
     (let vs = revalue L tape k t j
      in vs @ [if j = k then t else node_eval L vs (tape ! j)])"

text \<open>
  The operation of a node has a derivative at the value of its operand: the operand
  of \<open>INV\<close> is not zero, the operand of \<open>LOG\<close> is positive.
\<close>

definition node_defined :: "real grad_reverse_t list \<Rightarrow> nat \<Rightarrow> bool" where
  "node_defined tape i =
     (case operation (tape ! i) of
        GRAD_OP_INV \<Rightarrow> value (tape ! left (tape ! i)) \<noteq> 0
      | GRAD_OP_LOG \<Rightarrow> 0 < value (tape ! left (tape ! i))
      | _ \<Rightarrow> True)"

definition tape_defined :: "real reverse_state \<Rightarrow> bool" where
  "tape_defined st = list_all (node_defined (grad_reverse_tape st)) [0..<grad_reverse_current_id st]"


subsection \<open>The adjoints are the tangents\<close>

text \<open>
  The factor by which the backward pass at node \<open>m\<close> multiplies the adjoint of \<open>m\<close>
  before adding it to the adjoint of node \<open>j\<close>.
\<close>

definition coeff :: "real libm \<Rightarrow> real grad_reverse_t list \<Rightarrow> nat \<Rightarrow> nat \<Rightarrow> real" where
  "coeff L tape m j =
     (let n = tape ! m; v = value (tape ! left n) in
      case operation n of
        GRAD_OP_NONE \<Rightarrow> 0
      | GRAD_OP_ADD \<Rightarrow> (if j = left n then 1 else 0) + (if j = right n then 1 else 0)
      | GRAD_OP_MUL \<Rightarrow> (if j = left n then value (tape ! right n) else 0) +
                        (if j = right n then v else 0)
      | GRAD_OP_NEG \<Rightarrow> (if j = left n then - 1 else 0)
      | GRAD_OP_INV \<Rightarrow> (if j = left n then - 1 / (v * v) else 0)
      | GRAD_OP_SIN \<Rightarrow> (if j = left n then GRAD_COS L v else 0)
      | GRAD_OP_COS \<Rightarrow> (if j = left n then - GRAD_SIN L v else 0)
      | GRAD_OP_EXP \<Rightarrow> (if j = left n then GRAD_EXP L v else 0)
      | GRAD_OP_LOG \<Rightarrow> (if j = left n then 1 / v else 0))"

text \<open>The tangent of a node from the tangents \<open>d\<close> of its operands (the chain rule).\<close>

definition node_tangent :: "real libm \<Rightarrow> real grad_reverse_t list \<Rightarrow> (nat \<Rightarrow> real) \<Rightarrow> real grad_reverse_t \<Rightarrow> real" where
  "node_tangent L tape d n =
     (let v = value (tape ! left n) in
      case operation n of
        GRAD_OP_NONE \<Rightarrow> 0
      | GRAD_OP_ADD \<Rightarrow> d (left n) + d (right n)
      | GRAD_OP_MUL \<Rightarrow> value (tape ! right n) * d (left n) + v * d (right n)
      | GRAD_OP_NEG \<Rightarrow> - d (left n)
      | GRAD_OP_INV \<Rightarrow> - d (left n) / (v * v)
      | GRAD_OP_SIN \<Rightarrow> GRAD_COS L v * d (left n)
      | GRAD_OP_COS \<Rightarrow> - GRAD_SIN L v * d (left n)
      | GRAD_OP_EXP \<Rightarrow> GRAD_EXP L v * d (left n)
      | GRAD_OP_LOG \<Rightarrow> d (left n) / v)"

text \<open>
  \<open>tangents L tape k m\<close>: the derivatives of the values of the nodes \<open>0\<close>, ..., \<open>m - 1\<close>
  with respect to the value of node \<open>k\<close>, by the chain rule along the tape.
\<close>

fun tangents :: "real libm \<Rightarrow> real grad_reverse_t list \<Rightarrow> nat \<Rightarrow> nat \<Rightarrow> real list" where
  "tangents L tape k 0 = []"
| "tangents L tape k (Suc j) =
     (let ds = tangents L tape k j
      in ds @ [if j = k then 1 else node_tangent L tape (\<lambda>p. ds ! p) (tape ! j)])"

lemma backward_node_derivative:
  assumes refs: "\<forall>p \<in> set (operand_refs (tape ! m)). p < m"
    and m: "m < length tape" and j: "j < length tape"
  shows "derivative (backward_node L m tape ! j) =
         derivative (tape ! j) + coeff L tape m j * derivative (tape ! m)"
proof (cases "operation (tape ! m)")
  case GRAD_OP_NONE
  then show ?thesis by (simp add: backward_node_def coeff_def)
next
  case GRAD_OP_ADD
  then have "left (tape ! m) < m" "right (tape ! m) < m"
    using refs by (simp_all add: operand_refs_def)
  then show ?thesis
    using GRAD_OP_ADD m j
    by (simp add: backward_node_def coeff_def Let_def add_derivative_nth algebra_simps)
next
  case GRAD_OP_MUL
  then have "left (tape ! m) < m" "right (tape ! m) < m"
    using refs by (simp_all add: operand_refs_def)
  then show ?thesis
    using GRAD_OP_MUL m j
    by (simp add: backward_node_def coeff_def Let_def add_derivative_nth algebra_simps)
next
  case GRAD_OP_NEG
  then have "left (tape ! m) < m" using refs by (simp add: operand_refs_def)
  then show ?thesis
    using GRAD_OP_NEG m j
    by (simp add: backward_node_def coeff_def Let_def add_derivative_nth)
next
  case GRAD_OP_INV
  then have "left (tape ! m) < m" using refs by (simp add: operand_refs_def)
  then show ?thesis
    using GRAD_OP_INV m j
    by (simp add: backward_node_def coeff_def Let_def add_derivative_nth)
next
  case GRAD_OP_SIN
  then have "left (tape ! m) < m" using refs by (simp add: operand_refs_def)
  then show ?thesis
    using GRAD_OP_SIN m j
    by (simp add: backward_node_def coeff_def Let_def add_derivative_nth)
next
  case GRAD_OP_COS
  then have "left (tape ! m) < m" using refs by (simp add: operand_refs_def)
  then show ?thesis
    using GRAD_OP_COS m j
    by (simp add: backward_node_def coeff_def Let_def add_derivative_nth)
next
  case GRAD_OP_EXP
  then have "left (tape ! m) < m" using refs by (simp add: operand_refs_def)
  then show ?thesis
    using GRAD_OP_EXP m j
    by (simp add: backward_node_def coeff_def Let_def add_derivative_nth)
next
  case GRAD_OP_LOG
  then have "left (tape ! m) < m" using refs by (simp add: operand_refs_def)
  then show ?thesis
    using GRAD_OP_LOG m j
    by (simp add: backward_node_def coeff_def Let_def add_derivative_nth)
qed

lemma coeff_beyond:
  "\<forall>p \<in> set (operand_refs (tape ! m)). p < m \<Longrightarrow> m \<le> j \<Longrightarrow> coeff L tape m j = 0"
  by (auto simp: coeff_def operand_refs_def Let_def split: grad_reverse_op_t.splits)

lemma sum_delta_lt:
  "(l::nat) < m \<Longrightarrow> (\<Sum>j<m. (if j = l then c else 0) * X j) = c * (X l :: real)"
proof -
  assume l: "l < m"
  have "(\<Sum>j<m. (if j = l then c else 0) * X j) = (\<Sum>j\<in>{..<m}. if j = l then c * X j else 0)"
    by (rule sum.cong) auto
  also have "\<dots> = c * X l" using l by (simp add: sum.delta)
  finally show ?thesis .
qed

lemma coeff_sum:
  assumes refs: "\<forall>p \<in> set (operand_refs (tape ! m)). p < m"
  shows "(\<Sum>j<m. coeff L tape m j * X j) = node_tangent L tape X (tape ! m)"
proof (cases "operation (tape ! m)")
  case GRAD_OP_NONE
  then show ?thesis by (simp add: coeff_def node_tangent_def)
next
  case GRAD_OP_ADD
  then have "left (tape ! m) < m" "right (tape ! m) < m"
    using refs by (simp_all add: operand_refs_def)
  then show ?thesis
    using GRAD_OP_ADD
    by (simp add: coeff_def node_tangent_def Let_def distrib_right sum.distrib sum_delta_lt)
next
  case GRAD_OP_MUL
  then have "left (tape ! m) < m" "right (tape ! m) < m"
    using refs by (simp_all add: operand_refs_def)
  then show ?thesis
    using GRAD_OP_MUL
    by (simp add: coeff_def node_tangent_def Let_def distrib_right sum.distrib sum_delta_lt)
next
  case GRAD_OP_NEG
  then have "left (tape ! m) < m" using refs by (simp add: operand_refs_def)
  then show ?thesis
    using GRAD_OP_NEG by (simp add: coeff_def node_tangent_def Let_def sum_delta_lt)
next
  case GRAD_OP_INV
  then have "left (tape ! m) < m" using refs by (simp add: operand_refs_def)
  then show ?thesis
    using GRAD_OP_INV by (simp add: coeff_def node_tangent_def Let_def sum_delta_lt)
next
  case GRAD_OP_SIN
  then have "left (tape ! m) < m" using refs by (simp add: operand_refs_def)
  then show ?thesis
    using GRAD_OP_SIN by (simp add: coeff_def node_tangent_def Let_def sum_delta_lt)
next
  case GRAD_OP_COS
  then have "left (tape ! m) < m" using refs by (simp add: operand_refs_def)
  then show ?thesis
    using GRAD_OP_COS by (simp add: coeff_def node_tangent_def Let_def sum_delta_lt)
next
  case GRAD_OP_EXP
  then have "left (tape ! m) < m" using refs by (simp add: operand_refs_def)
  then show ?thesis
    using GRAD_OP_EXP by (simp add: coeff_def node_tangent_def Let_def sum_delta_lt)
next
  case GRAD_OP_LOG
  then have "left (tape ! m) < m" using refs by (simp add: operand_refs_def)
  then show ?thesis
    using GRAD_OP_LOG by (simp add: coeff_def node_tangent_def Let_def sum_delta_lt)
qed


lemma tangents_length [simp]: "length (tangents L tape k m) = m"
  by (induction m) (simp_all add: Let_def)

lemma tangents_Suc_nth: "j < m \<Longrightarrow> tangents L tape k (Suc m) ! j = tangents L tape k m ! j"
  by (simp add: Let_def nth_append)

lemma tangents_prefix: "j < m \<Longrightarrow> m \<le> m' \<Longrightarrow> tangents L tape k m' ! j = tangents L tape k m ! j"
proof (induction m')
  case 0
  then show ?case by simp
next
  case (Suc m')
  show ?case
  proof (cases "m = Suc m'")
    case True
    then show ?thesis by simp
  next
    case False
    then have "m \<le> m'" using Suc.prems by simp
    then have "tangents L tape k m' ! j = tangents L tape k m ! j" using Suc by simp
    moreover have "j < m'" using \<open>m \<le> m'\<close> Suc.prems by simp
    ultimately show ?thesis using tangents_Suc_nth[of j m' L tape k] by (simp del: tangents.simps)
  qed
qed

lemma node_tangent_cong:
  "\<forall>p \<in> set (operand_refs n). d p = d' p \<Longrightarrow> node_tangent L tape d n = node_tangent L tape d' n"
  by (auto simp: node_tangent_def operand_refs_def Let_def split: grad_reverse_op_t.splits)

lemma node_tangent_zero:
  "\<forall>p \<in> set (operand_refs n). d p = 0 \<Longrightarrow> node_tangent L tape d n = 0"
  by (auto simp: node_tangent_def operand_refs_def Let_def split: grad_reverse_op_t.splits)

lemma tangents_nth:
  assumes wf: "graph_wf tape n" and j: "j < n"
  shows "tangents L tape k n ! j =
         (if j = k then 1 else node_tangent L tape (\<lambda>p. tangents L tape k n ! p) (tape ! j))"
proof -
  have "tangents L tape k n ! j = tangents L tape k (Suc j) ! j"
    using j by (intro tangents_prefix) simp_all
  also have "\<dots> = (if j = k then 1 else node_tangent L tape (\<lambda>p. tangents L tape k j ! p) (tape ! j))"
    by (simp add: Let_def nth_append)
  also have "node_tangent L tape (\<lambda>p. tangents L tape k j ! p) (tape ! j) =
             node_tangent L tape (\<lambda>p. tangents L tape k n ! p) (tape ! j)"
  proof (rule node_tangent_cong, rule ballI)
    fix p assume "p \<in> set (operand_refs (tape ! j))"
    then have "p < j" using graph_wf_refs[OF wf j] by simp
    then show "tangents L tape k j ! p = tangents L tape k n ! p"
      using j by (intro tangents_prefix[symmetric]) simp_all
  qed
  finally show ?thesis .
qed

lemma tangents_zero:
  assumes wf: "graph_wf tape n"
  shows "j < k \<Longrightarrow> j < n \<Longrightarrow> tangents L tape k n ! j = 0"
proof (induction j rule: less_induct)
  case (less j)
  have "tangents L tape k n ! j = node_tangent L tape (\<lambda>p. tangents L tape k n ! p) (tape ! j)"
    using tangents_nth[OF wf less.prems(2), of L k] less.prems(1) by simp
  also have "\<dots> = 0"
  proof (rule node_tangent_zero, rule ballI)
    fix p assume "p \<in> set (operand_refs (tape ! j))"
    then have "p < j" using graph_wf_refs[OF wf less.prems(2)] by simp
    then show "tangents L tape k n ! p = 0" using less by simp
  qed
  finally show ?case .
qed

lemma strip_nth_fields:
  assumes "map strip tape = map strip T" and "i < length T"
  shows "value (tape ! i) = value (T ! i)" "operation (tape ! i) = operation (T ! i)"
    "left (tape ! i) = left (T ! i)" "right (tape ! i) = right (T ! i)"
  using strip_fields[OF strip_nth[OF assms]] by simp_all

lemma graph_wf_strip:
  assumes eq: "map strip tape = map strip T" and wf: "graph_wf T n" and i: "i < n"
  shows "operand_refs (tape ! i) = operand_refs (T ! i)"
proof -
  have "i < length T" using wf i by (simp add: graph_wf_def)
  from strip_nth_fields[OF eq this] show ?thesis
    by (auto simp: operand_refs_def split: grad_reverse_op_t.splits)
qed

lemma coeff_strip:
  assumes eq: "map strip tape = map strip T" and wf: "graph_wf T n" and m: "m < n"
  shows "coeff L tape m j = coeff L T m j"
proof -
  have len: "m < length T" "n \<le> length T" using wf m by (simp_all add: graph_wf_def)
  note fm = strip_nth_fields[OF eq len(1)]
  have v: "value (tape ! p) = value (T ! p)" if "p \<in> set (operand_refs (T ! m))" for p
  proof -
    have "p < m" using graph_wf_refs[OF wf m that] .
    then have "p < length T" using len by simp
    then show ?thesis using strip_nth_fields(1)[OF eq] by simp
  qed
  show ?thesis
    using fm v
    by (cases "operation (T ! m)") (simp_all add: coeff_def Let_def operand_refs_def)
qed

lemma backward_loop_adjoint:
  assumes wf: "graph_wf T n" and k: "k < n"
  shows "map strip tape = map strip T \<Longrightarrow> m \<le> n \<Longrightarrow>
         derivative (backward_loop L m tape ! k) =
           (\<Sum>j<m. derivative (tape ! j) * tangents L T k n ! j) +
           (if m \<le> k then derivative (tape ! k) else 0)"
proof (induction m arbitrary: tape)
  case 0
  then show ?case by simp
next
  case (Suc m)
  let ?D = "\<lambda>j. tangents L T k n ! j"
  let ?tape' = "backward_node L m tape"
  have m: "m < n" using Suc.prems by simp
  have len: "length tape = length T" using Suc.prems(1) by (rule map_strip_length)
  have nlen: "n \<le> length T" using wf by (simp add: graph_wf_def)
  have refs: "\<forall>p \<in> set (operand_refs (tape ! m)). p < m"
    using graph_wf_strip[OF Suc.prems(1) wf m] graph_wf_refs[OF wf m] by simp
  have refsT: "\<forall>p \<in> set (operand_refs (T ! m)). p < m"
    using graph_wf_refs[OF wf m] by simp
  have step: "derivative (?tape' ! j) = derivative (tape ! j) + coeff L T m j * derivative (tape ! m)"
    if "j < n" for j
    using backward_node_derivative[OF refs, of j] that m len nlen
      coeff_strip[OF Suc.prems(1) wf m] by simp
  have IH: "derivative (backward_loop L m ?tape' ! k) =
           (\<Sum>j<m. derivative (?tape' ! j) * ?D j) +
           (if m \<le> k then derivative (?tape' ! k) else 0)"
    using Suc.IH[of ?tape'] Suc.prems by simp
  have "(\<Sum>j<m. derivative (?tape' ! j) * ?D j) =
        (\<Sum>j<m. derivative (tape ! j) * ?D j + derivative (tape ! m) * (coeff L T m j * ?D j))"
    using m by (intro sum.cong) (simp_all add: step algebra_simps)
  also have "\<dots> = (\<Sum>j<m. derivative (tape ! j) * ?D j) +
                   derivative (tape ! m) * (\<Sum>j<m. coeff L T m j * ?D j)"
    by (simp add: sum.distrib sum_distrib_left)
  also have "(\<Sum>j<m. coeff L T m j * ?D j) = node_tangent L T ?D (T ! m)"
    using coeff_sum[OF refsT] .
  finally have S: "(\<Sum>j<m. derivative (?tape' ! j) * ?D j) =
        (\<Sum>j<m. derivative (tape ! j) * ?D j) + derivative (tape ! m) * node_tangent L T ?D (T ! m)" .
  have beyond: "derivative (?tape' ! k) = derivative (tape ! k)" if "m \<le> k"
    using step[OF k] coeff_beyond[OF refsT that] by simp
  consider "k < m" | "k = m" | "m < k" by linarith
  then show ?case
  proof cases
    case 1
    have "?D m = node_tangent L T ?D (T ! m)"
      using tangents_nth[OF wf m, of L k] 1 by simp
    then show ?thesis using 1 IH S by simp
  next
    case 2
    have z: "?D j = 0" if "j < m" for j
      using tangents_zero[OF wf, of j k] that 2 m by simp
    have "node_tangent L T ?D (T ! m) = 0"
      using refsT z by (intro node_tangent_zero) simp
    moreover have "(\<Sum>j<m. derivative (tape ! j) * ?D j) = 0"
      using z by simp
    moreover have "?D m = 1" using tangents_nth[OF wf m, of L k] 2 by simp
    ultimately show ?thesis using 2 IH S beyond by simp
  next
    case 3
    have z: "?D j = 0" if "j \<le> m" for j
      using tangents_zero[OF wf, of j k] that 3 m by simp
    have "node_tangent L T ?D (T ! m) = 0"
      using refsT z by (intro node_tangent_zero) (auto simp: less_imp_le)
    moreover have "(\<Sum>j<m. derivative (tape ! j) * ?D j) = 0"
      using z by simp
    ultimately show ?thesis using 3 IH S beyond z[of m] by simp
  qed
qed


lemma backward_adjoint:
  assumes wf: "graph_wf (grad_reverse_tape st) (grad_reverse_current_id st)"
    and out: "out < grad_reverse_current_id st" and k: "k < grad_reverse_current_id st"
  shows "derivative (grad_reverse_tape (grad_reverse_backward L st out) ! k) =
         tangents L (grad_reverse_tape st) k (grad_reverse_current_id st) ! out"
proof -
  let ?T = "grad_reverse_tape st" and ?n = "grad_reverse_current_id st"
  let ?z = "zero_derivatives ?n ?T"
  let ?s = "?z[out := (?z ! out)\<lparr>derivative := 1\<rparr>]"
  have n: "?n \<le> length ?T" using wf by (simp add: graph_wf_def)
  have eq: "map strip ?s = map strip ?T"
    using add_derivative_strip[of out "1 - derivative (?z ! out)" ?z]
    by (simp add: add_derivative_def)
  have seed: "derivative (?s ! j) = (if j = out then 1 else 0)" if "j < ?n" for j
    using that n out by (simp add: nth_list_update zero_derivatives_nth)
  have "derivative (backward_loop L ?n ?s ! k) =
          (\<Sum>j<?n. derivative (?s ! j) * tangents L ?T k ?n ! j) +
          (if ?n \<le> k then derivative (?s ! k) else 0)"
    by (rule backward_loop_adjoint[OF wf k eq]) simp
  also have "\<dots> = (\<Sum>j<?n. (if j = out then 1 else 0) * tangents L ?T k ?n ! j)"
    using k seed by simp
  also have "\<dots> = tangents L ?T k ?n ! out"
    using sum_delta_lt[OF out, of 1 "\<lambda>j. tangents L ?T k ?n ! j"] by simp
  finally show ?thesis by (simp add: grad_reverse_backward_def Let_def)
qed


lemma node_tangent_strip:
  assumes n: "strip n' = strip n"
    and v: "\<forall>p \<in> set (operand_refs n). value (T' ! p) = value (T ! p)"
  shows "node_tangent L T' d n' = node_tangent L T d n"
  using strip_fields[OF n] v
  by (cases "operation n") (simp_all add: node_tangent_def operand_refs_def Let_def)

lemma tangents_cong:
  assumes wf: "graph_wf T n" and eq: "\<forall>i<n. strip (T' ! i) = strip (T ! i)"
  shows "m \<le> n \<Longrightarrow> tangents L T' k m = tangents L T k m"
proof (induction m)
  case 0
  show ?case by simp
next
  case (Suc m)
  then have m: "m < n" by simp
  have IH: "tangents L T' k m = tangents L T k m" using Suc by simp
  have "node_tangent L T' d (T' ! m) = node_tangent L T d (T ! m)" for d
  proof (rule node_tangent_strip)
    show "strip (T' ! m) = strip (T ! m)" using eq m by simp
    show "\<forall>p \<in> set (operand_refs (T ! m)). value (T' ! p) = value (T ! p)"
    proof
      fix p assume "p \<in> set (operand_refs (T ! m))"
      then have "p < n" using graph_wf_refs[OF wf m] m by fastforce
      then show "value (T' ! p) = value (T ! p)" using eq strip_fields(1) by blast
    qed
  qed
  then show ?case using IH by (simp add: Let_def)
qed


subsection \<open>Forward mode over the real numbers: the derivative vector of each operation\<close>

lemma forward_add_spec:
  assumes c: "grad_forward_current_id st \<le> N" and a: "fwd_ok N st (a :: real grad_forward_t)" and b: "fwd_ok N st b"
  shows "grad_forward_t.value (grad_forward_add N st a b) = grad_forward_t.value a + grad_forward_t.value b"
    and "fwd_ok N st (grad_forward_add N st a b)"
    and "i < N \<Longrightarrow> grad_forward_t.derivative (grad_forward_add N st a b) ! i =
           grad_forward_t.derivative a ! i + grad_forward_t.derivative b ! i"
  using fwd_ok_nth[OF a] fwd_ok_nth[OF b]
  by (simp_all add: grad_forward_add_def Let_def derivative_loop_spec[OF c] fwd_ok_loop[OF c])

lemma forward_add_c_spec:
  assumes c: "grad_forward_current_id st \<le> N" and a: "fwd_ok N st (a :: real grad_forward_t)"
  shows "grad_forward_t.value (grad_forward_add_c N st a k) = grad_forward_t.value a + k"
    and "fwd_ok N st (grad_forward_add_c N st a k)"
    and "i < N \<Longrightarrow> grad_forward_t.derivative (grad_forward_add_c N st a k) ! i =
           grad_forward_t.derivative a ! i"
  using a by (simp_all add: grad_forward_add_c_def Let_def forward_zero_def fwd_ok_def)

lemma forward_mul_spec:
  assumes c: "grad_forward_current_id st \<le> N" and a: "fwd_ok N st (a :: real grad_forward_t)" and b: "fwd_ok N st b"
  shows "grad_forward_t.value (grad_forward_mul N st a b) = grad_forward_t.value a * grad_forward_t.value b"
    and "fwd_ok N st (grad_forward_mul N st a b)"
    and "i < N \<Longrightarrow> grad_forward_t.derivative (grad_forward_mul N st a b) ! i =
           grad_forward_t.derivative a ! i * grad_forward_t.value b +
           grad_forward_t.value a * grad_forward_t.derivative b ! i"
  using fwd_ok_nth[OF a] fwd_ok_nth[OF b]
  by (simp_all add: grad_forward_mul_def Let_def derivative_loop_spec[OF c] fwd_ok_loop[OF c])

lemma forward_mul_c_spec:
  assumes c: "grad_forward_current_id st \<le> N" and a: "fwd_ok N st (a :: real grad_forward_t)"
  shows "grad_forward_t.value (grad_forward_mul_c N st a k) = grad_forward_t.value a * k"
    and "fwd_ok N st (grad_forward_mul_c N st a k)"
    and "i < N \<Longrightarrow> grad_forward_t.derivative (grad_forward_mul_c N st a k) ! i =
           k * grad_forward_t.derivative a ! i"
  using fwd_ok_nth[OF a]
  by (simp_all add: grad_forward_mul_c_def Let_def derivative_loop_spec[OF c] fwd_ok_loop[OF c])

lemma forward_inv_spec:
  assumes c: "grad_forward_current_id st \<le> N" and a: "fwd_ok N st (a :: real grad_forward_t)"
  shows "grad_forward_t.value (grad_forward_inv N st a) = 1 / grad_forward_t.value a"
    and "fwd_ok N st (grad_forward_inv N st a)"
    and "i < N \<Longrightarrow> grad_forward_t.derivative (grad_forward_inv N st a) ! i =
           - grad_forward_t.derivative a ! i * (1 / (grad_forward_t.value a * grad_forward_t.value a))"
  using fwd_ok_nth[OF a]
  by (simp_all add: grad_forward_inv_def Let_def derivative_loop_spec[OF c] fwd_ok_loop[OF c])

lemma forward_exp_spec:
  assumes c: "grad_forward_current_id st \<le> N" and a: "fwd_ok N st (a :: real grad_forward_t)"
  shows "grad_forward_t.value (grad_forward_exp L N st a) = GRAD_EXP L (grad_forward_t.value a)"
    and "fwd_ok N st (grad_forward_exp L N st a)"
    and "i < N \<Longrightarrow> grad_forward_t.derivative (grad_forward_exp L N st a) ! i =
           GRAD_EXP L (grad_forward_t.value a) * grad_forward_t.derivative a ! i"
  using fwd_ok_nth[OF a]
  by (simp_all add: grad_forward_exp_def Let_def derivative_loop_spec[OF c] fwd_ok_loop[OF c])

lemma forward_log_spec:
  assumes c: "grad_forward_current_id st \<le> N" and a: "fwd_ok N st (a :: real grad_forward_t)"
  shows "grad_forward_t.value (grad_forward_log L N st a) = GRAD_LOG L (grad_forward_t.value a)"
    and "fwd_ok N st (grad_forward_log L N st a)"
    and "i < N \<Longrightarrow> grad_forward_t.derivative (grad_forward_log L N st a) ! i =
           1 / grad_forward_t.value a * grad_forward_t.derivative a ! i"
  using fwd_ok_nth[OF a]
  by (simp_all add: grad_forward_log_def Let_def derivative_loop_spec[OF c] fwd_ok_loop[OF c])

lemma forward_sin_spec:
  assumes c: "grad_forward_current_id st \<le> N" and a: "fwd_ok N st (a :: real grad_forward_t)"
  shows "grad_forward_t.value (grad_forward_sin L N st a) = GRAD_SIN L (grad_forward_t.value a)"
    and "fwd_ok N st (grad_forward_sin L N st a)"
    and "i < N \<Longrightarrow> grad_forward_t.derivative (grad_forward_sin L N st a) ! i =
           GRAD_COS L (grad_forward_t.value a) * grad_forward_t.derivative a ! i"
  using fwd_ok_nth[OF a]
  by (simp_all add: grad_forward_sin_def Let_def derivative_loop_spec[OF c] fwd_ok_loop[OF c])

lemma forward_cos_spec:
  assumes c: "grad_forward_current_id st \<le> N" and a: "fwd_ok N st (a :: real grad_forward_t)"
  shows "grad_forward_t.value (grad_forward_cos L N st a) = GRAD_COS L (grad_forward_t.value a)"
    and "fwd_ok N st (grad_forward_cos L N st a)"
    and "i < N \<Longrightarrow> grad_forward_t.derivative (grad_forward_cos L N st a) ! i =
           - GRAD_SIN L (grad_forward_t.value a) * grad_forward_t.derivative a ! i"
  using fwd_ok_nth[OF a]
  by (simp_all add: grad_forward_cos_def Let_def derivative_loop_spec[OF c] fwd_ok_loop[OF c])

lemma forward_sqrt_spec:
  assumes c: "grad_forward_current_id st \<le> N" and a: "fwd_ok N st (a :: real grad_forward_t)"
  shows "grad_forward_t.value (grad_forward_sqrt L N st a) = GRAD_SQRT L (grad_forward_t.value a)"
    and "fwd_ok N st (grad_forward_sqrt L N st a)"
    and "i < N \<Longrightarrow> grad_forward_t.derivative (grad_forward_sqrt L N st a) ! i =
           1 / 2 / GRAD_SQRT L (grad_forward_t.value a) * grad_forward_t.derivative a ! i"
  using fwd_ok_nth[OF a]
  by (simp_all add: grad_forward_sqrt_def Let_def derivative_loop_spec[OF c] fwd_ok_loop[OF c])

lemma forward_pow_spec:
  assumes c: "grad_forward_current_id st \<le> N" and a: "fwd_ok N st (a :: real grad_forward_t)"
  shows "grad_forward_t.value (grad_forward_pow L N st a e) = GRAD_POW L (grad_forward_t.value a) e"
    and "fwd_ok N st (grad_forward_pow L N st a e)"
    and "i < N \<Longrightarrow> grad_forward_t.derivative (grad_forward_pow L N st a e) ! i =
           e * GRAD_POW L (grad_forward_t.value a) (e - 1) * grad_forward_t.derivative a ! i"
  using fwd_ok_nth[OF a]
  by (simp_all add: grad_forward_pow_def Let_def derivative_loop_spec[OF c] fwd_ok_loop[OF c])

lemma forward_neg_spec:
  assumes c: "grad_forward_current_id st \<le> N" and a: "fwd_ok N st (a :: real grad_forward_t)"
  shows "grad_forward_t.value (grad_forward_neg N st a) = - grad_forward_t.value a"
    and "fwd_ok N st (grad_forward_neg N st a)"
    and "i < N \<Longrightarrow> grad_forward_t.derivative (grad_forward_neg N st a) ! i =
           - grad_forward_t.derivative a ! i"
  by (simp_all add: grad_forward_neg_def forward_mul_c_spec[OF c a])

lemma forward_sub_spec:
  assumes c: "grad_forward_current_id st \<le> N" and a: "fwd_ok N st (a :: real grad_forward_t)" and b: "fwd_ok N st b"
  shows "grad_forward_t.value (grad_forward_sub N st a b) = grad_forward_t.value a - grad_forward_t.value b"
    and "fwd_ok N st (grad_forward_sub N st a b)"
    and "i < N \<Longrightarrow> grad_forward_t.derivative (grad_forward_sub N st a b) ! i =
           grad_forward_t.derivative a ! i - grad_forward_t.derivative b ! i"
  by (simp_all add: grad_forward_sub_def Let_def forward_add_spec[OF c a forward_neg_spec(2)[OF c b]]
      forward_neg_spec[OF c b])

lemma forward_div_spec:
  assumes c: "grad_forward_current_id st \<le> N" and a: "fwd_ok N st (a :: real grad_forward_t)" and b: "fwd_ok N st b"
  shows "grad_forward_t.value (grad_forward_div N st a b) =
           grad_forward_t.value a * (1 / grad_forward_t.value b)"
    and "fwd_ok N st (grad_forward_div N st a b)"
    and "i < N \<Longrightarrow> grad_forward_t.derivative (grad_forward_div N st a b) ! i =
           grad_forward_t.derivative a ! i * (1 / grad_forward_t.value b) +
           grad_forward_t.value a *
             (- grad_forward_t.derivative b ! i * (1 / (grad_forward_t.value b * grad_forward_t.value b)))"
  by (simp_all add: grad_forward_div_def Let_def forward_mul_spec[OF c a forward_inv_spec(2)[OF c b]]
      forward_inv_spec[OF c b])

lemma forward_tan_spec:
  assumes c: "grad_forward_current_id st \<le> N" and a: "fwd_ok N st (a :: real grad_forward_t)"
  shows "grad_forward_t.value (grad_forward_tan L N st a) =
           GRAD_SIN L (grad_forward_t.value a) * (1 / GRAD_COS L (grad_forward_t.value a))"
    and "fwd_ok N st (grad_forward_tan L N st a)"
    and "i < N \<Longrightarrow> grad_forward_t.derivative (grad_forward_tan L N st a) ! i =
           GRAD_COS L (grad_forward_t.value a) * grad_forward_t.derivative a ! i *
             (1 / GRAD_COS L (grad_forward_t.value a)) +
           GRAD_SIN L (grad_forward_t.value a) *
             (- (- GRAD_SIN L (grad_forward_t.value a) * grad_forward_t.derivative a ! i) *
                (1 / (GRAD_COS L (grad_forward_t.value a) * GRAD_COS L (grad_forward_t.value a))))"
  by (simp_all add: grad_forward_tan_def Let_def
      forward_div_spec[OF c forward_sin_spec(2)[OF c a] forward_cos_spec(2)[OF c a]]
      forward_sin_spec[OF c a] forward_cos_spec[OF c a])

lemma forward_init_spec:
  assumes "grad_forward_init N st (x::real) = Inr (v, st')"
  shows "grad_forward_t.value v = x" and "slot_id v = grad_forward_current_id st"
    and "grad_forward_current_id st' = Suc (grad_forward_current_id st)"
    and "grad_forward_current_id st < N"
    and "fwd_ok N st' v"
    and "i < N \<Longrightarrow> grad_forward_t.derivative v ! i = (if i = grad_forward_current_id st then 1 else 0)"
  using assms
  by (auto simp: grad_forward_init_eq fwd_ok_def nth_list_update split: if_splits)


subsection \<open>Cross-mode agreement\<close>

text \<open>The tangent of node \<open>p\<close> with respect to node \<open>k\<close> in the live tape.\<close>

definition adj :: "real libm \<Rightarrow> real reverse_state \<Rightarrow> nat \<Rightarrow> nat \<Rightarrow> real" where
  "adj L rs k p = tangents L (grad_reverse_tape rs) k (grad_reverse_current_id rs) ! p"

text \<open>
  A forward Variable \<open>v\<close> and a reverse node \<open>p\<close> that stand for the same quantity:
  equal values, and the derivative of \<open>v\<close> at every slot is the tangent of \<open>p\<close> with
  respect to the leaf of that slot.
\<close>

definition corr ::
  "real libm \<Rightarrow> nat \<Rightarrow> forward_state \<Rightarrow> real reverse_state \<Rightarrow> nat list \<Rightarrow> real grad_forward_t \<Rightarrow> nat \<Rightarrow> bool" where
  "corr L N fs rs seeds v p =
     (p < grad_reverse_current_id rs \<and> fwd_ok N fs v \<and>
      grad_forward_t.value v = value (grad_reverse_tape rs ! p) \<and>
      (\<forall>s<length seeds. grad_forward_t.derivative v ! s = adj L rs (seeds ! s) p))"

definition cross_base :: "real libm \<Rightarrow> nat \<Rightarrow> forward_state \<Rightarrow> real reverse_state \<Rightarrow> nat list \<Rightarrow> bool" where
  "cross_base L N fs rs seeds =
     (tape_wf L rs \<and> grad_forward_current_id fs \<le> N \<and> length seeds = grad_forward_current_id fs \<and>
      (\<forall>s<length seeds. seeds ! s < grad_reverse_current_id rs))"

declare tangents.simps [simp del]

lemma adj_fun:
  "adj L rs k = (\<lambda>p. tangents L (grad_reverse_tape rs) k (grad_reverse_current_id rs) ! p)"
  by (rule ext) (simp add: adj_def)

lemma adj_push_old:
  assumes wf: "tape_wf L rs" and room: "has_room rs" and p: "p < grad_reverse_current_id rs"
  shows "adj L (push_node rs f) k p = adj L rs k p"
proof -
  let ?T = "grad_reverse_tape rs" and ?n = "grad_reverse_current_id rs"
  let ?T' = "grad_reverse_tape (push_node rs f)"
  have eq: "\<forall>i<?n. strip (?T' ! i) = strip (?T ! i)"
    using room by (simp add: push_node_nth)
  have "tangents L ?T' k (Suc ?n) ! p = tangents L ?T' k ?n ! p"
    using p by (intro tangents_prefix) simp_all
  also have "\<dots> = tangents L ?T k ?n ! p"
    using tangents_cong[OF tape_wf_graph_wf[OF wf] eq, of ?n L k] by simp
  finally show ?thesis by (simp add: adj_def)
qed

lemma adj_push_new:
  assumes wf': "tape_wf L (push_node rs f)" and wf: "tape_wf L rs" and room: "has_room rs"
    and k: "k < grad_reverse_current_id rs"
  shows "adj L (push_node rs f) k (grad_reverse_current_id rs) =
         node_tangent L (grad_reverse_tape (push_node rs f)) (adj L rs k)
           (f (grad_reverse_tape rs ! grad_reverse_current_id rs))"
proof -
  let ?n = "grad_reverse_current_id rs"
  let ?T' = "grad_reverse_tape (push_node rs f)"
  have g: "graph_wf ?T' (Suc ?n)" using tape_wf_graph_wf[OF wf'] by simp
  have new: "?T' ! ?n = f (grad_reverse_tape rs ! ?n)" using room by (simp add: push_node_nth)
  have "adj L (push_node rs f) k ?n = node_tangent L ?T' (adj L (push_node rs f) k) (?T' ! ?n)"
    using tangents_nth[OF g, of ?n L k] k by (simp add: adj_fun)
  also have "\<dots> = node_tangent L ?T' (adj L rs k) (?T' ! ?n)"
  proof (rule node_tangent_cong, rule ballI)
    fix p assume "p \<in> set (operand_refs (?T' ! ?n))"
    then have "p < ?n" using graph_wf_refs[OF g, of ?n p] by simp
    then show "adj L (push_node rs f) k p = adj L rs k p" by (rule adj_push_old[OF wf room])
  qed
  finally show ?thesis using new by simp
qed

lemma corr_push_old:
  assumes wf: "tape_wf L rs" and room: "has_room rs" and c: "corr L N fs rs seeds v p"
  shows "corr L N fs (push_node rs f) seeds v p"
  using c room by (auto simp: corr_def adj_push_old[OF wf room] push_node_nth)

lemma corr_push_new:
  assumes base: "cross_base L N fs rs seeds" and room: "has_room rs"
    and wf': "tape_wf L (push_node rs f)"
    and fok: "fwd_ok N fs v"
    and val: "grad_forward_t.value v = value (f (grad_reverse_tape rs ! grad_reverse_current_id rs))"
    and tan: "\<And>s. s < length seeds \<Longrightarrow>
                grad_forward_t.derivative v ! s =
                node_tangent L (grad_reverse_tape (push_node rs f)) (adj L rs (seeds ! s))
                  (f (grad_reverse_tape rs ! grad_reverse_current_id rs))"
  shows "corr L N fs (push_node rs f) seeds v (grad_reverse_current_id rs)"
proof -
  have wf: "tape_wf L rs" and sd: "\<forall>s<length seeds. seeds ! s < grad_reverse_current_id rs"
    using base by (simp_all add: cross_base_def)
  have "adj L (push_node rs f) (seeds ! s) (grad_reverse_current_id rs) =
        grad_forward_t.derivative v ! s" if "s < length seeds" for s
    using adj_push_new[OF wf' wf room, of "seeds ! s"] sd tan that by simp
  then show ?thesis
    using fok val room by (simp add: corr_def push_node_nth)
qed

lemma cross_base_push:
  "cross_base L N fs rs seeds \<Longrightarrow> tape_wf L (push_node rs f) \<Longrightarrow> cross_base L N fs (push_node rs f) seeds"
  by (auto simp: cross_base_def less_Suc_eq)


definition grown :: "real libm \<Rightarrow> nat \<Rightarrow> forward_state \<Rightarrow> nat list \<Rightarrow> real reverse_state \<Rightarrow> real reverse_state \<Rightarrow> bool" where
  "grown L N fs seeds rs rs' =
     (cross_base L N fs rs' seeds \<and>
      (\<forall>w q. corr L N fs rs seeds w q \<longrightarrow> corr L N fs rs' seeds w q) \<and>
      grad_reverse_current_id rs \<le> grad_reverse_current_id rs' \<and>
      (\<forall>i<grad_reverse_current_id rs. grad_reverse_tape rs' ! i = grad_reverse_tape rs ! i))"

lemma grown_push:
  assumes "cross_base L N fs rs seeds" "has_room rs" "tape_wf L (push_node rs f)"
  shows "grown L N fs seeds rs (push_node rs f)"
  using assms cross_base_push[OF assms(1,3)] corr_push_old[of L rs]
  by (auto simp: grown_def cross_base_def push_node_nth)

lemma grown_trans: "grown L N fs seeds a b \<Longrightarrow> grown L N fs seeds b c \<Longrightarrow> grown L N fs seeds a c"
  by (auto simp: grown_def)

lemma corr_fields:
  assumes "corr L N fs rs seeds v p"
  shows "p < grad_reverse_current_id rs" "fwd_ok N fs v"
    "node_value rs p = grad_forward_t.value v"
    "s < length seeds \<Longrightarrow> adj L rs (seeds ! s) p = grad_forward_t.derivative v ! s"
  using assms by (simp_all add: corr_def node_value_def)

lemma seeds_lt: "cross_base L N fs rs seeds \<Longrightarrow> s < length seeds \<Longrightarrow> s < N"
  by (simp add: cross_base_def)

lemma add_corr:
  assumes base: "cross_base L N fs rs seeds"
    and c1: "corr L N fs rs seeds v1 p1" and c2: "corr L N fs rs seeds v2 p2"
    and ex: "grad_reverse_add rs p1 p2 = Inr (p, rs')"
  shows "corr L N fs rs' seeds (grad_forward_add N fs v1 v2) p \<and> grown L N fs seeds rs rs' \<and>
         operation (grad_reverse_tape rs' ! p) \<noteq> GRAD_OP_NONE"
proof -
  let ?f = "\<lambda>n. n\<lparr>value := node_value rs p1 + node_value rs p2,
                  derivative := 0, operation := GRAD_OP_ADD, left := p1, right := p2\<rparr>"
  have wf: "tape_wf L rs" and cN: "grad_forward_current_id fs \<le> N"
    using base by (simp_all add: cross_base_def)
  note f1 = corr_fields[OF c1] and f2 = corr_fields[OF c2]
  have room: "has_room rs" and rs': "rs' = push_node rs ?f" and p: "p = grad_reverse_current_id rs"
    using ex by (auto simp: grad_reverse_add_eq split: if_splits)
  have wf': "tape_wf L (push_node rs ?f)"
    using add_built[OF wf f1(1) f2(1) ex] rs' by (simp add: built_def)
  note spec = forward_add_spec[OF cN f1(2) f2(2)]
  have "corr L N fs (push_node rs ?f) seeds (grad_forward_add N fs v1 v2) (grad_reverse_current_id rs)"
  proof (rule corr_push_new[OF base room wf' spec(2)])
    show "grad_forward_t.value (grad_forward_add N fs v1 v2) =
          value (?f (grad_reverse_tape rs ! grad_reverse_current_id rs))"
      using spec(1) f1(3) f2(3) by simp
    fix s assume s: "s < length seeds"
    show "grad_forward_t.derivative (grad_forward_add N fs v1 v2) ! s =
          node_tangent L (grad_reverse_tape (push_node rs ?f)) (adj L rs (seeds ! s))
            (?f (grad_reverse_tape rs ! grad_reverse_current_id rs))"
      using spec(3)[OF seeds_lt[OF base s]] f1(4)[OF s] f2(4)[OF s]
      by (simp add: node_tangent_def)
  qed
  moreover have "operation (grad_reverse_tape (push_node rs ?f) ! grad_reverse_current_id rs) \<noteq> GRAD_OP_NONE"
    using room by (simp add: push_node_nth)
  ultimately show ?thesis
    using grown_push[OF base room wf'] rs' p by simp
qed

lemma mul_corr:
  assumes base: "cross_base L N fs rs seeds"
    and c1: "corr L N fs rs seeds v1 p1" and c2: "corr L N fs rs seeds v2 p2"
    and ex: "grad_reverse_mul rs p1 p2 = Inr (p, rs')"
  shows "corr L N fs rs' seeds (grad_forward_mul N fs v1 v2) p \<and> grown L N fs seeds rs rs' \<and>
         operation (grad_reverse_tape rs' ! p) \<noteq> GRAD_OP_NONE"
proof -
  let ?f = "\<lambda>n. n\<lparr>value := node_value rs p1 * node_value rs p2,
                  derivative := 0, operation := GRAD_OP_MUL, left := p1, right := p2\<rparr>"
  have wf: "tape_wf L rs" and cN: "grad_forward_current_id fs \<le> N"
    using base by (simp_all add: cross_base_def)
  note f1 = corr_fields[OF c1] and f2 = corr_fields[OF c2]
  have room: "has_room rs" and rs': "rs' = push_node rs ?f" and p: "p = grad_reverse_current_id rs"
    using ex by (auto simp: grad_reverse_mul_eq split: if_splits)
  have wf': "tape_wf L (push_node rs ?f)"
    using mul_built[OF wf f1(1) f2(1) ex] rs' by (simp add: built_def)
  note spec = forward_mul_spec[OF cN f1(2) f2(2)]
  have old: "value (grad_reverse_tape (push_node rs ?f) ! q) = node_value rs q"
    if "q < grad_reverse_current_id rs" for q
    using that room by (simp add: push_node_nth node_value_def)
  have "corr L N fs (push_node rs ?f) seeds (grad_forward_mul N fs v1 v2) (grad_reverse_current_id rs)"
  proof (rule corr_push_new[OF base room wf' spec(2)])
    show "grad_forward_t.value (grad_forward_mul N fs v1 v2) =
          value (?f (grad_reverse_tape rs ! grad_reverse_current_id rs))"
      using spec(1) f1(3) f2(3) by simp
    fix s assume s: "s < length seeds"
    show "grad_forward_t.derivative (grad_forward_mul N fs v1 v2) ! s =
          node_tangent L (grad_reverse_tape (push_node rs ?f)) (adj L rs (seeds ! s))
            (?f (grad_reverse_tape rs ! grad_reverse_current_id rs))"
      using spec(3)[OF seeds_lt[OF base s]] f1(4)[OF s] f2(4)[OF s] old[OF f1(1)] old[OF f2(1)]
        f1(3) f2(3)
      by (simp add: node_tangent_def)
  qed
  moreover have "operation (grad_reverse_tape (push_node rs ?f) ! grad_reverse_current_id rs) \<noteq> GRAD_OP_NONE"
    using room by (simp add: push_node_nth)
  ultimately show ?thesis
    using grown_push[OF base room wf'] rs' p by simp
qed


text \<open>The chain rule of a unary operation, at operand value \<open>u\<close> and operand tangent \<open>d\<close>.\<close>

definition unary_rule :: "real libm \<Rightarrow> grad_reverse_op_t \<Rightarrow> real \<Rightarrow> real \<Rightarrow> real" where
  "unary_rule L tag u d =
     (case tag of
        GRAD_OP_NEG \<Rightarrow> - d
      | GRAD_OP_INV \<Rightarrow> - d / (u * u)
      | GRAD_OP_SIN \<Rightarrow> GRAD_COS L u * d
      | GRAD_OP_COS \<Rightarrow> - GRAD_SIN L u * d
      | GRAD_OP_EXP \<Rightarrow> GRAD_EXP L u * d
      | GRAD_OP_LOG \<Rightarrow> d / u
      | _ \<Rightarrow> 0)"

definition is_unary :: "grad_reverse_op_t \<Rightarrow> bool" where
  "is_unary tag = (tag \<noteq> GRAD_OP_NONE \<and> tag \<noteq> GRAD_OP_ADD \<and> tag \<noteq> GRAD_OP_MUL)"

lemma node_tangent_unary:
  "is_unary tag \<Longrightarrow>
   node_tangent L T d (unary_node tag x g n) = unary_rule L tag (value (T ! g)) (d g)"
  by (cases tag) (simp_all add: is_unary_def node_tangent_def unary_node_def unary_rule_def Let_def)

lemma unary_corr:
  assumes base: "cross_base L N fs rs seeds" and c1: "corr L N fs rs seeds v1 p1"
    and tag: "is_unary tag"
    and room: "has_room rs" and rs': "rs' = push_node rs (unary_node tag x p1)"
    and p: "p = grad_reverse_current_id rs" and wf': "tape_wf L rs'"
    and fok: "fwd_ok N fs v" and val: "grad_forward_t.value v = x"
    and tan: "\<And>s. s < N \<Longrightarrow> grad_forward_t.derivative v ! s =
                unary_rule L tag (grad_forward_t.value v1) (grad_forward_t.derivative v1 ! s)"
  shows "corr L N fs rs' seeds v p \<and> grown L N fs seeds rs rs' \<and>
         operation (grad_reverse_tape rs' ! p) \<noteq> GRAD_OP_NONE"
proof -
  let ?f = "unary_node tag x p1"
  note f1 = corr_fields[OF c1]
  have wf'': "tape_wf L (push_node rs ?f)" using wf' rs' by simp
  have old: "value (grad_reverse_tape (push_node rs ?f) ! p1) = grad_forward_t.value v1"
    using f1(1,3) room by (simp add: push_node_nth node_value_def)
  have "corr L N fs (push_node rs ?f) seeds v (grad_reverse_current_id rs)"
  proof (rule corr_push_new[OF base room wf'' fok])
    show "grad_forward_t.value v = value (?f (grad_reverse_tape rs ! grad_reverse_current_id rs))"
      using val by (simp add: unary_node_def)
    fix s assume s: "s < length seeds"
    show "grad_forward_t.derivative v ! s =
          node_tangent L (grad_reverse_tape (push_node rs ?f)) (adj L rs (seeds ! s))
            (?f (grad_reverse_tape rs ! grad_reverse_current_id rs))"
      using tan[OF seeds_lt[OF base s]] f1(4)[OF s] old
      by (simp add: node_tangent_unary[OF tag])
  qed
  moreover have "operation (grad_reverse_tape (push_node rs ?f) ! grad_reverse_current_id rs) \<noteq> GRAD_OP_NONE"
    using room tag by (simp add: push_node_nth unary_node_def is_unary_def)
  ultimately show ?thesis
    using grown_push[OF base room wf''] rs' p by simp
qed

lemma unary_pushed:
  assumes "tape_wf L rs" "g < grad_reverse_current_id rs"
  shows "grad_reverse_neg rs g = Inr (p, rs') \<Longrightarrow>
           has_room rs \<and> rs' = push_node rs (unary_node GRAD_OP_NEG (- node_value rs g) g) \<and>
           p = grad_reverse_current_id rs \<and> tape_wf L rs'"
    and "grad_reverse_inv rs g = Inr (p, rs') \<Longrightarrow>
           has_room rs \<and> rs' = push_node rs (unary_node GRAD_OP_INV (1 / node_value rs g) g) \<and>
           p = grad_reverse_current_id rs \<and> tape_wf L rs'"
    and "grad_reverse_sin L rs g = Inr (p, rs') \<Longrightarrow>
           has_room rs \<and> rs' = push_node rs (unary_node GRAD_OP_SIN (GRAD_SIN L (node_value rs g)) g) \<and>
           p = grad_reverse_current_id rs \<and> tape_wf L rs'"
    and "grad_reverse_cos L rs g = Inr (p, rs') \<Longrightarrow>
           has_room rs \<and> rs' = push_node rs (unary_node GRAD_OP_COS (GRAD_COS L (node_value rs g)) g) \<and>
           p = grad_reverse_current_id rs \<and> tape_wf L rs'"
    and "grad_reverse_exp L rs g = Inr (p, rs') \<Longrightarrow>
           has_room rs \<and> rs' = push_node rs (unary_node GRAD_OP_EXP (GRAD_EXP L (node_value rs g)) g) \<and>
           p = grad_reverse_current_id rs \<and> tape_wf L rs'"
    and "grad_reverse_log L rs g = Inr (p, rs') \<Longrightarrow>
           has_room rs \<and> rs' = push_node rs (unary_node GRAD_OP_LOG (GRAD_LOG L (node_value rs g)) g) \<and>
           p = grad_reverse_current_id rs \<and> tape_wf L rs'"
  using unary_built[OF assms, of "(p, rs')"]
  by (auto simp: grad_reverse_unary_eq built_def split: if_splits)

lemma unary_corrs:
  assumes base: "cross_base L N fs rs seeds" and c1: "corr L N fs rs seeds v1 p1"
  shows "grad_reverse_neg rs p1 = Inr (p, rs') \<Longrightarrow>
           corr L N fs rs' seeds (grad_forward_neg N fs v1) p \<and> grown L N fs seeds rs rs' \<and>
           operation (grad_reverse_tape rs' ! p) \<noteq> GRAD_OP_NONE"
    and "grad_reverse_inv rs p1 = Inr (p, rs') \<Longrightarrow>
           corr L N fs rs' seeds (grad_forward_inv N fs v1) p \<and> grown L N fs seeds rs rs' \<and>
           operation (grad_reverse_tape rs' ! p) \<noteq> GRAD_OP_NONE"
    and "grad_reverse_sin L rs p1 = Inr (p, rs') \<Longrightarrow>
           corr L N fs rs' seeds (grad_forward_sin L N fs v1) p \<and> grown L N fs seeds rs rs' \<and>
           operation (grad_reverse_tape rs' ! p) \<noteq> GRAD_OP_NONE"
    and "grad_reverse_cos L rs p1 = Inr (p, rs') \<Longrightarrow>
           corr L N fs rs' seeds (grad_forward_cos L N fs v1) p \<and> grown L N fs seeds rs rs' \<and>
           operation (grad_reverse_tape rs' ! p) \<noteq> GRAD_OP_NONE"
    and "grad_reverse_exp L rs p1 = Inr (p, rs') \<Longrightarrow>
           corr L N fs rs' seeds (grad_forward_exp L N fs v1) p \<and> grown L N fs seeds rs rs' \<and>
           operation (grad_reverse_tape rs' ! p) \<noteq> GRAD_OP_NONE"
    and "grad_reverse_log L rs p1 = Inr (p, rs') \<Longrightarrow>
           corr L N fs rs' seeds (grad_forward_log L N fs v1) p \<and> grown L N fs seeds rs rs' \<and>
           operation (grad_reverse_tape rs' ! p) \<noteq> GRAD_OP_NONE"
proof -
  have wf: "tape_wf L rs" and cN: "grad_forward_current_id fs \<le> N"
    using base by (simp_all add: cross_base_def)
  note f1 = corr_fields[OF c1]
  note pushed = unary_pushed[OF wf f1(1)]
  note u = unary_corr[OF base c1]
  {
    assume ex: "grad_reverse_neg rs p1 = Inr (p, rs')"
    note spec = forward_neg_spec[OF cN f1(2)]
    show "corr L N fs rs' seeds (grad_forward_neg N fs v1) p \<and> grown L N fs seeds rs rs' \<and>
           operation (grad_reverse_tape rs' ! p) \<noteq> GRAD_OP_NONE"
      using pushed(1)[OF ex] spec f1(3)
      by (intro u[of GRAD_OP_NEG _ "- node_value rs p1"]) (auto simp: is_unary_def unary_rule_def)
  }
  {
    assume ex: "grad_reverse_inv rs p1 = Inr (p, rs')"
    note spec = forward_inv_spec[OF cN f1(2)]
    show "corr L N fs rs' seeds (grad_forward_inv N fs v1) p \<and> grown L N fs seeds rs rs' \<and>
           operation (grad_reverse_tape rs' ! p) \<noteq> GRAD_OP_NONE"
      using pushed(2)[OF ex] spec f1(3)
      by (intro u[of GRAD_OP_INV _ "1 / node_value rs p1"]) (auto simp: is_unary_def unary_rule_def)
  }
  {
    assume ex: "grad_reverse_sin L rs p1 = Inr (p, rs')"
    note spec = forward_sin_spec[OF cN f1(2)]
    show "corr L N fs rs' seeds (grad_forward_sin L N fs v1) p \<and> grown L N fs seeds rs rs' \<and>
           operation (grad_reverse_tape rs' ! p) \<noteq> GRAD_OP_NONE"
      using pushed(3)[OF ex] spec f1(3)
      by (intro u[of GRAD_OP_SIN _ "GRAD_SIN L (node_value rs p1)"])
        (auto simp: is_unary_def unary_rule_def)
  }
  {
    assume ex: "grad_reverse_cos L rs p1 = Inr (p, rs')"
    note spec = forward_cos_spec[OF cN f1(2)]
    show "corr L N fs rs' seeds (grad_forward_cos L N fs v1) p \<and> grown L N fs seeds rs rs' \<and>
           operation (grad_reverse_tape rs' ! p) \<noteq> GRAD_OP_NONE"
      using pushed(4)[OF ex] spec f1(3)
      by (intro u[of GRAD_OP_COS _ "GRAD_COS L (node_value rs p1)"])
        (auto simp: is_unary_def unary_rule_def)
  }
  {
    assume ex: "grad_reverse_exp L rs p1 = Inr (p, rs')"
    note spec = forward_exp_spec[OF cN f1(2)]
    show "corr L N fs rs' seeds (grad_forward_exp L N fs v1) p \<and> grown L N fs seeds rs rs' \<and>
           operation (grad_reverse_tape rs' ! p) \<noteq> GRAD_OP_NONE"
      using pushed(5)[OF ex] spec f1(3)
      by (intro u[of GRAD_OP_EXP _ "GRAD_EXP L (node_value rs p1)"])
        (auto simp: is_unary_def unary_rule_def)
  }
  {
    assume ex: "grad_reverse_log L rs p1 = Inr (p, rs')"
    note spec = forward_log_spec[OF cN f1(2)]
    show "corr L N fs rs' seeds (grad_forward_log L N fs v1) p \<and> grown L N fs seeds rs rs' \<and>
           operation (grad_reverse_tape rs' ! p) \<noteq> GRAD_OP_NONE"
      using pushed(6)[OF ex] spec f1(3)
      by (intro u[of GRAD_OP_LOG _ "GRAD_LOG L (node_value rs p1)"])
        (auto simp: is_unary_def unary_rule_def)
  }
qed


lemma grown_fields:
  assumes "grown L N fs seeds rs rs'"
  shows "cross_base L N fs rs' seeds"
    and "corr L N fs rs seeds w q \<Longrightarrow> corr L N fs rs' seeds w q"
    and "i < grad_reverse_current_id rs \<Longrightarrow> grad_reverse_tape rs' ! i = grad_reverse_tape rs ! i"
  using assms by (simp_all add: grown_def)

lemma sub_corr:
  assumes base: "cross_base L N fs rs seeds"
    and c1: "corr L N fs rs seeds v1 p1" and c2: "corr L N fs rs seeds v2 p2"
    and ex: "grad_reverse_sub rs p1 p2 = Inr (p, rs')"
  shows "corr L N fs rs' seeds (grad_forward_sub N fs v1 v2) p \<and> grown L N fs seeds rs rs' \<and>
         operation (grad_reverse_tape rs' ! p) \<noteq> GRAD_OP_NONE"
proof -
  from ex obtain q rs1 where n: "grad_reverse_neg rs p2 = Inr (q, rs1)"
    and a: "grad_reverse_add rs1 p1 q = Inr (p, rs')"
    by (auto simp: grad_reverse_sub_def split: sum.splits)
  have 1: "corr L N fs rs1 seeds (grad_forward_neg N fs v2) q" "grown L N fs seeds rs rs1"
    using unary_corrs(1)[OF base c2 n] by simp_all
  note g1 = grown_fields[OF 1(2)]
  have "corr L N fs rs' seeds (grad_forward_add N fs v1 (grad_forward_neg N fs v2)) p \<and>
        grown L N fs seeds rs1 rs' \<and> operation (grad_reverse_tape rs' ! p) \<noteq> GRAD_OP_NONE"
    using add_corr[OF g1(1) g1(2)[OF c1] 1(1) a] .
  then show ?thesis
    using grown_trans[OF 1(2)] by (simp add: grad_forward_sub_def Let_def)
qed

lemma div_corr:
  assumes base: "cross_base L N fs rs seeds"
    and c1: "corr L N fs rs seeds v1 p1" and c2: "corr L N fs rs seeds v2 p2"
    and ex: "grad_reverse_div rs p1 p2 = Inr (p, rs')"
  shows "corr L N fs rs' seeds (grad_forward_div N fs v1 v2) p \<and> grown L N fs seeds rs rs' \<and>
         operation (grad_reverse_tape rs' ! p) \<noteq> GRAD_OP_NONE"
proof -
  from ex obtain q rs1 where n: "grad_reverse_inv rs p2 = Inr (q, rs1)"
    and a: "grad_reverse_mul rs1 p1 q = Inr (p, rs')"
    by (auto simp: grad_reverse_div_def split: sum.splits)
  have 1: "corr L N fs rs1 seeds (grad_forward_inv N fs v2) q" "grown L N fs seeds rs rs1"
    using unary_corrs(2)[OF base c2 n] by simp_all
  note g1 = grown_fields[OF 1(2)]
  have "corr L N fs rs' seeds (grad_forward_mul N fs v1 (grad_forward_inv N fs v2)) p \<and>
        grown L N fs seeds rs1 rs' \<and> operation (grad_reverse_tape rs' ! p) \<noteq> GRAD_OP_NONE"
    using mul_corr[OF g1(1) g1(2)[OF c1] 1(1) a] .
  then show ?thesis
    using grown_trans[OF 1(2)] by (simp add: grad_forward_div_def Let_def)
qed

lemma init_corr:
  assumes base: "cross_base L N fs rs seeds"
    and exf: "grad_forward_init N fs x = Inr (v, fs')"
    and exr: "grad_reverse_init rs x = Inr (p, rs')"
  shows "corr L N fs' rs' (seeds @ [p]) v p"
    and "cross_base L N fs' rs' (seeds @ [p])"
    and "corr L N fs rs seeds w q \<Longrightarrow> corr L N fs' rs' (seeds @ [p]) w q"
    and "operation (grad_reverse_tape rs' ! p) = GRAD_OP_NONE"
    and "slot_id v = length seeds"
    and "p = grad_reverse_current_id rs"
    and "i < grad_reverse_current_id rs \<Longrightarrow> grad_reverse_tape rs' ! i = grad_reverse_tape rs ! i"
proof -
  let ?f = "\<lambda>n. n\<lparr>value := x, operation := GRAD_OP_NONE, derivative := 0\<rparr>"
  let ?n = "grad_reverse_current_id rs"
  have wf: "tape_wf L rs" and cN: "grad_forward_current_id fs \<le> N"
    and ls: "length seeds = grad_forward_current_id fs"
    and sd: "\<forall>s<length seeds. seeds ! s < ?n"
    using base by (simp_all add: cross_base_def)
  note fi = forward_init_spec[OF exf]
  have room: "has_room rs" and rs': "rs' = push_node rs ?f" and p: "p = ?n"
    using exr by (auto simp: grad_reverse_init_eq split: if_splits)
  have wf': "tape_wf L (push_node rs ?f)"
    using init_built[OF wf exr] rs' by (simp add: built_def)
  have g: "graph_wf (grad_reverse_tape (push_node rs ?f)) (Suc ?n)"
    using tape_wf_graph_wf[OF wf'] by simp
  have new: "grad_reverse_tape (push_node rs ?f) ! ?n = ?f (grad_reverse_tape rs ! ?n)"
    using room by (simp add: push_node_nth)
  have adj_self: "adj L (push_node rs ?f) ?n ?n = 1"
    using tangents_nth[OF g, of ?n L ?n] by (simp add: adj_def)
  have adj_leaf: "adj L (push_node rs ?f) k ?n = 0" if "k < ?n" for k
    using adj_push_new[OF wf' wf room that] by (simp add: node_tangent_def)
  have adj_before: "adj L (push_node rs ?f) ?n q = 0" if "q < ?n" for q
    using tangents_zero[OF g, of q ?n] that by (simp add: adj_def)
  show "p = ?n" by (rule p)
  show "slot_id v = length seeds" using fi(2) ls by simp
  show "operation (grad_reverse_tape rs' ! p) = GRAD_OP_NONE"
    using new rs' p by simp
  show "grad_reverse_tape rs' ! i = grad_reverse_tape rs ! i" if "i < ?n" for i
    using that room rs' by (simp add: push_node_nth)
  show "cross_base L N fs' rs' (seeds @ [p])"
    using wf' rs' p fi(3,4) ls sd by (auto simp: cross_base_def nth_append less_Suc_eq)
  show "corr L N fs' rs' (seeds @ [p]) v p"
    unfolding corr_def
  proof (intro conjI allI impI)
    show "p < grad_reverse_current_id rs'" using rs' p by simp
    show "fwd_ok N fs' v" by (rule fi(5))
    show "grad_forward_t.value v = value (grad_reverse_tape rs' ! p)"
      using fi(1) new rs' p by simp
    fix s assume s: "s < length (seeds @ [p])"
    show "grad_forward_t.derivative v ! s = adj L rs' ((seeds @ [p]) ! s) p"
    proof (cases "s < length seeds")
      case True
      then have "s < N" "s \<noteq> grad_forward_current_id fs" using ls cN by simp_all
      then show ?thesis using fi(6)[of s] True adj_leaf[of "seeds ! s"] sd rs' p
        by (simp add: nth_append)
    next
      case False
      then have "s = length seeds" using s by simp
      then show ?thesis using fi(6)[of s] fi(4) ls adj_self rs' p by (simp add: nth_append)
    qed
  qed
  show "corr L N fs' rs' (seeds @ [p]) w q" if c: "corr L N fs rs seeds w q"
    unfolding corr_def
  proof (intro conjI allI impI)
    note f = corr_fields[OF c]
    show "q < grad_reverse_current_id rs'" using f(1) rs' by simp
    show "fwd_ok N fs' w" using fwd_ok_mono[OF f(2)] fi(3) by simp
    show "grad_forward_t.value w = value (grad_reverse_tape rs' ! q)"
      using f(1,3) room rs' by (simp add: push_node_nth node_value_def)
    fix s assume s: "s < length (seeds @ [p])"
    show "grad_forward_t.derivative w ! s = adj L rs' ((seeds @ [p]) ! s) q"
    proof (cases "s < length seeds")
      case True
      then show ?thesis
        using f(4)[OF True] adj_push_old[OF wf room f(1), of ?f] rs' by (simp add: nth_append)
    next
      case False
      then have "s = grad_forward_current_id fs" using s ls by simp
      then show ?thesis
        using fwd_ok_nth[OF f(2), of s] fi(4) adj_before[OF f(1)] rs' p ls by (simp add: nth_append)
    qed
  qed
qed


definition cross_inv ::
  "real libm \<Rightarrow> nat \<Rightarrow> forward_state \<Rightarrow> real reverse_state \<Rightarrow> nat list \<Rightarrow> real grad_forward_t list \<Rightarrow> nat list \<Rightarrow> bool" where
  "cross_inv L N fs rs seeds fenv renv =
     (cross_base L N fs rs seeds \<and> list_all2 (corr L N fs rs seeds) fenv renv \<and>
      (\<forall>x<length renv. operation (grad_reverse_tape rs ! (renv ! x)) = GRAD_OP_NONE \<longrightarrow>
         slot_id (fenv ! x) < length seeds \<and> seeds ! slot_id (fenv ! x) = renv ! x))"

lemma cross_inv_nth:
  "cross_inv L N fs rs seeds fenv renv \<Longrightarrow> a < length renv \<Longrightarrow>
   corr L N fs rs seeds (fenv ! a) (renv ! a)"
  by (simp add: cross_inv_def list_all2_conv_all_nth)

lemma cross_inv_length: "cross_inv L N fs rs seeds fenv renv \<Longrightarrow> length fenv = length renv"
  by (auto simp: cross_inv_def dest: list_all2_lengthD)

lemma cross_extend_op:
  assumes inv: "cross_inv L N fs rs seeds fenv renv"
    and new: "corr L N fs rs' seeds v p \<and> grown L N fs seeds rs rs' \<and>
              operation (grad_reverse_tape rs' ! p) \<noteq> GRAD_OP_NONE"
  shows "cross_inv L N fs rs' seeds (fenv @ [v]) (renv @ [p])"
proof -
  have g: "grown L N fs seeds rs rs'" using new by simp
  note gf = grown_fields[OF g]
  have l2: "list_all2 (corr L N fs rs seeds) fenv renv" using inv by (simp add: cross_inv_def)
  have len: "length fenv = length renv" using l2 by (rule list_all2_lengthD)
  have l2': "list_all2 (corr L N fs rs' seeds) fenv renv"
    using l2 gf(2) by (simp add: list_all2_conv_all_nth)
  have leaf: "slot_id ((fenv @ [v]) ! x) < length seeds \<and>
              seeds ! slot_id ((fenv @ [v]) ! x) = (renv @ [p]) ! x"
    if x: "x < length (renv @ [p])"
      and n: "operation (grad_reverse_tape rs' ! ((renv @ [p]) ! x)) = GRAD_OP_NONE" for x
  proof (cases "x < length renv")
    case True
    have "renv ! x < grad_reverse_current_id rs"
      using cross_inv_nth[OF inv True] by (simp add: corr_def)
    then have "operation (grad_reverse_tape rs ! (renv ! x)) = GRAD_OP_NONE"
      using n True gf(3) by (simp add: nth_append)
    then show ?thesis using inv True len by (simp add: cross_inv_def nth_append)
  next
    case False
    then have "x = length renv" using x by simp
    then show ?thesis using n new by simp
  qed
  show ?thesis
    unfolding cross_inv_def
    using gf(1) l2' new leaf by (auto simp: list_all2_appendI)
qed

lemma returned_Inr:
  "returned env r = Inr (st', env') \<Longrightarrow> \<exists>p. r = Inr (p, st') \<and> env' = env @ [p]"
  by (auto simp: returned_def split: sum.splits)

lemma cross_step:
  assumes inv: "cross_inv L N fs rs seeds fenv renv"
    and ok: "list_all (\<lambda>a. a < length renv) (rcmd_refs c)"
    and exf: "forward_exec L N (forward_of c) (fs, fenv) = Inr (fs', fenv')"
    and exr: "reverse_exec L c (rs, renv) = Inr (rs', renv')"
  shows "\<exists>seeds'. cross_inv L N fs' rs' seeds' fenv' renv'"
proof -
  have base: "cross_base L N fs rs seeds" using inv by (simp add: cross_inv_def)
  note nth = cross_inv_nth[OF inv]
  note ext = cross_extend_op[OF inv]
  show ?thesis
  proof (cases c)
    case (RInit x)
    from exr RInit obtain p where r: "grad_reverse_init rs x = Inr (p, rs')" and e: "renv' = renv @ [p]"
      using returned_Inr by fastforce
    from exf RInit obtain v where f: "grad_forward_init N fs x = Inr (v, fs')" and e': "fenv' = fenv @ [v]"
      by (auto split: sum.splits)
    note ic = init_corr[OF base f r]
    have l2: "list_all2 (corr L N fs rs seeds) fenv renv" using inv by (simp add: cross_inv_def)
    have len: "length fenv = length renv" using l2 by (rule list_all2_lengthD)
    have l2': "list_all2 (corr L N fs' rs' (seeds @ [p])) fenv renv"
      using l2 ic(3) by (simp add: list_all2_conv_all_nth)
    have leaf: "slot_id ((fenv @ [v]) ! x) < length (seeds @ [p]) \<and>
              (seeds @ [p]) ! slot_id ((fenv @ [v]) ! x) = (renv @ [p]) ! x"
      if x: "x < length (renv @ [p])"
        and n: "operation (grad_reverse_tape rs' ! ((renv @ [p]) ! x)) = GRAD_OP_NONE" for x
    proof (cases "x < length renv")
      case True
      have "renv ! x < grad_reverse_current_id rs"
        using nth[OF True] by (simp add: corr_def)
      then have "operation (grad_reverse_tape rs ! (renv ! x)) = GRAD_OP_NONE"
        using n True ic(7) by (simp add: nth_append)
      then have "slot_id (fenv ! x) < length seeds \<and> seeds ! slot_id (fenv ! x) = renv ! x"
        using inv True by (simp add: cross_inv_def)
      then show ?thesis using True len by (simp add: nth_append)
    next
      case False
      then have "x = length renv" using x by simp
      then show ?thesis using ic(5) len by (simp add: nth_append)
    qed
    have "cross_inv L N fs' rs' (seeds @ [p]) (fenv @ [v]) (renv @ [p])"
      unfolding cross_inv_def
      using ic(1,2) l2' leaf by (auto simp: list_all2_appendI)
    then show ?thesis using e e' by blast
  next
    case (RAdd a b)
    from exr RAdd obtain p where r: "grad_reverse_add rs (renv ! a) (renv ! b) = Inr (p, rs')"
      and e: "renv' = renv @ [p]" using returned_Inr by fastforce
    have "cross_inv L N fs rs' seeds (fenv @ [grad_forward_add N fs (fenv ! a) (fenv ! b)]) (renv @ [p])"
      using ok RAdd by (intro ext add_corr[OF base _ _ r] nth) simp_all
    then show ?thesis using e exf RAdd by auto
  next
    case (RSub a b)
    from exr RSub obtain p where r: "grad_reverse_sub rs (renv ! a) (renv ! b) = Inr (p, rs')"
      and e: "renv' = renv @ [p]" using returned_Inr by fastforce
    have "cross_inv L N fs rs' seeds (fenv @ [grad_forward_sub N fs (fenv ! a) (fenv ! b)]) (renv @ [p])"
      using ok RSub by (intro ext sub_corr[OF base _ _ r] nth) simp_all
    then show ?thesis using e exf RSub by auto
  next
    case (RMul a b)
    from exr RMul obtain p where r: "grad_reverse_mul rs (renv ! a) (renv ! b) = Inr (p, rs')"
      and e: "renv' = renv @ [p]" using returned_Inr by fastforce
    have "cross_inv L N fs rs' seeds (fenv @ [grad_forward_mul N fs (fenv ! a) (fenv ! b)]) (renv @ [p])"
      using ok RMul by (intro ext mul_corr[OF base _ _ r] nth) simp_all
    then show ?thesis using e exf RMul by auto
  next
    case (RDiv a b)
    from exr RDiv obtain p where r: "grad_reverse_div rs (renv ! a) (renv ! b) = Inr (p, rs')"
      and e: "renv' = renv @ [p]" using returned_Inr by fastforce
    have "cross_inv L N fs rs' seeds (fenv @ [grad_forward_div N fs (fenv ! a) (fenv ! b)]) (renv @ [p])"
      using ok RDiv by (intro ext div_corr[OF base _ _ r] nth) simp_all
    then show ?thesis using e exf RDiv by auto
  next
    case (RNeg a)
    from exr RNeg obtain p where r: "grad_reverse_neg rs (renv ! a) = Inr (p, rs')"
      and e: "renv' = renv @ [p]" using returned_Inr by fastforce
    have "cross_inv L N fs rs' seeds (fenv @ [grad_forward_neg N fs (fenv ! a)]) (renv @ [p])"
      using ok RNeg by (intro ext unary_corrs(1)[OF base _ r] nth) simp_all
    then show ?thesis using e exf RNeg by auto
  next
    case (RInv a)
    from exr RInv obtain p where r: "grad_reverse_inv rs (renv ! a) = Inr (p, rs')"
      and e: "renv' = renv @ [p]" using returned_Inr by fastforce
    have "cross_inv L N fs rs' seeds (fenv @ [grad_forward_inv N fs (fenv ! a)]) (renv @ [p])"
      using ok RInv by (intro ext unary_corrs(2)[OF base _ r] nth) simp_all
    then show ?thesis using e exf RInv by auto
  next
    case (RSin a)
    from exr RSin obtain p where r: "grad_reverse_sin L rs (renv ! a) = Inr (p, rs')"
      and e: "renv' = renv @ [p]" using returned_Inr by fastforce
    have "cross_inv L N fs rs' seeds (fenv @ [grad_forward_sin L N fs (fenv ! a)]) (renv @ [p])"
      using ok RSin by (intro ext unary_corrs(3)[OF base _ r] nth) simp_all
    then show ?thesis using e exf RSin by auto
  next
    case (RCos a)
    from exr RCos obtain p where r: "grad_reverse_cos L rs (renv ! a) = Inr (p, rs')"
      and e: "renv' = renv @ [p]" using returned_Inr by fastforce
    have "cross_inv L N fs rs' seeds (fenv @ [grad_forward_cos L N fs (fenv ! a)]) (renv @ [p])"
      using ok RCos by (intro ext unary_corrs(4)[OF base _ r] nth) simp_all
    then show ?thesis using e exf RCos by auto
  next
    case (RExp a)
    from exr RExp obtain p where r: "grad_reverse_exp L rs (renv ! a) = Inr (p, rs')"
      and e: "renv' = renv @ [p]" using returned_Inr by fastforce
    have "cross_inv L N fs rs' seeds (fenv @ [grad_forward_exp L N fs (fenv ! a)]) (renv @ [p])"
      using ok RExp by (intro ext unary_corrs(5)[OF base _ r] nth) simp_all
    then show ?thesis using e exf RExp by auto
  next
    case (RLog a)
    from exr RLog obtain p where r: "grad_reverse_log L rs (renv ! a) = Inr (p, rs')"
      and e: "renv' = renv @ [p]" using returned_Inr by fastforce
    have "cross_inv L N fs rs' seeds (fenv @ [grad_forward_log L N fs (fenv ! a)]) (renv @ [p])"
      using ok RLog by (intro ext unary_corrs(6)[OF base _ r] nth) simp_all
    then show ?thesis using e exf RLog by auto
  qed
qed

lemma cross_run:
  "cross_inv L N fs rs seeds fenv renv \<Longrightarrow>
   rcalls_ok (length renv) (map Build cmds) \<Longrightarrow>
   forward_run L N (map forward_of cmds) (fs, fenv) = Inr (fs', fenv') \<Longrightarrow>
   reverse_run L (map Build cmds) (rs, renv) = Inr (rs', renv') \<Longrightarrow>
   \<exists>seeds'. cross_inv L N fs' rs' seeds' fenv' renv'"
proof (induction cmds arbitrary: fs rs seeds fenv renv)
  case Nil
  then show ?case by auto
next
  case (Cons c cmds)
  from Cons.prems(3) obtain fs1 fenv1 where
    f1: "forward_exec L N (forward_of c) (fs, fenv) = Inr (fs1, fenv1)"
    and fr: "forward_run L N (map forward_of cmds) (fs1, fenv1) = Inr (fs', fenv')"
    by (auto split: sum.splits)
  from Cons.prems(4) obtain rs1 renv1 where
    r1: "reverse_exec L c (rs, renv) = Inr (rs1, renv1)"
    and rr: "reverse_run L (map Build cmds) (rs1, renv1) = Inr (rs', renv')"
    by (auto split: sum.splits)
  have ok: "list_all (\<lambda>a. a < length renv) (rcmd_refs c)"
    and ok': "rcalls_ok (Suc (length renv)) (map Build cmds)"
    using Cons.prems(2) by simp_all
  obtain seeds1 where inv1: "cross_inv L N fs1 rs1 seeds1 fenv1 renv1"
    using cross_step[OF Cons.prems(1) ok f1 r1] by blast
  have "length renv1 = Suc (length renv)"
    using r1 returned_Inr by (cases c) fastforce+
  then show ?case using Cons.IH[OF inv1 _ fr rr] ok' by simp
qed

lemma cross_inv_start:
  "cross_inv L N (grad_forward_start_scope f0) (grad_reverse_start_scope r0) [] [] []"
  by (simp add: cross_inv_def cross_base_def tape_wf_def grad_forward_start_scope_def
      grad_reverse_start_scope_def)


subsection \<open>The example \<open>x * x / y\<close> at \<open>x = 5\<close>, \<open>y = 6\<close> in exact arithmetic and in binary32\<close>

definition exact_quotient_cmds :: "real rcmd list" where
  "exact_quotient_cmds = [RInit 5, RMul 0 0, RInit 6, RDiv 1 2]"

definition exact_quotient_state :: "real reverse_state" where
  "exact_quotient_state =
     \<lparr>grad_reverse_tape =
        [\<lparr>value = 5, derivative = 0, operation = GRAD_OP_NONE, left = 0, right = 0\<rparr>,
         \<lparr>value = 25, derivative = 0, operation = GRAD_OP_MUL, left = 0, right = 0\<rparr>,
         \<lparr>value = 6, derivative = 0, operation = GRAD_OP_NONE, left = 0, right = 0\<rparr>,
         \<lparr>value = 1 / 6, derivative = 0, operation = GRAD_OP_INV, left = 2, right = 0\<rparr>,
         \<lparr>value = 25 / 6, derivative = 0, operation = GRAD_OP_MUL, left = 1, right = 3\<rparr>,
         \<lparr>value = 0, derivative = 0, operation = GRAD_OP_NONE, left = 0, right = 0\<rparr>],
      grad_reverse_current_id = 5\<rparr>"

lemma exact_quotient_run:
  "reverse_run real_libm (map Build exact_quotient_cmds)
     (grad_reverse_start_scope (reverse_state0 6), []) =
   Inr (exact_quotient_state, [0, 1, 2, 4])"
  by (simp add: exact_quotient_cmds_def exact_quotient_state_def run_eval eval_nat_numeral)

lemma exact_quotient_defined: "tape_defined exact_quotient_state"
  by (simp add: exact_quotient_state_def tape_defined_def node_defined_def eval_nat_numeral)



text \<open>
  The value of the quotient as a function of \<open>x\<close> is \<open>x * x / 6\<close> in exact arithmetic,
  with derivative \<open>5 / 3\<close> at \<open>x = 5\<close>; the adjoint and the forward derivative that
  binary32 gives are both \<open>6990507 / 2\<^sup>2\<^sup>2\<close>.
\<close>

definition exact_node :: "float32 grad_reverse_t \<Rightarrow> real grad_reverse_t" where
  "exact_node n =
     \<lparr>value = valof (value n), derivative = valof (derivative n), operation = operation n,
      left = left n, right = right n\<rparr>"

lemma exact_quotient_value:
  "revalue real_libm (map exact_node (grad_reverse_tape quotient_state)) 0 t
     (grad_reverse_current_id quotient_state) ! 4 = t * t * (1 / 6)"
  by (simp add: quotient_state_def quotient_tape_def exact_node_def valof_def node_eval_def
      eval_nat_numeral Let_def)


lemma exact_quotient_prog_value:
  "grad_forward_t.value
     (snd (projr (forward_run real_libm 2 [FInit t, FMul 0 0, FInit 6, FDiv 1 2]
                    (grad_forward_start_scope forward_state0, []))) ! 3) = t * t * (1 / 6)"
  by (simp add: forward_eval eval_nat_numeral Let_def)


end
